theory Spec2Isabelle
  imports Main "HOL-Library.Word" "HOL-Library.AList" "HOL-Library.Multiset"
    "HOL-Library.List_Lexorder"
begin

unbundle bit_operations_syntax

section \<open>Bytes, slices and byte order\<close>

text \<open>
  The store (wtxmgr/db.go) works on Go byte slices. A slice is a list of 8-bit words.
  The capacity of a slice is taken to be its length, so a slice expression
  \<^verbatim>\<open>v[i:j]\<close> with \<open>j\<close> beyond the length panics; every function below that slices
  or indexes without a length check of its own returns \<open>Panic\<close> there.
\<close>

type_synonym byte = "8 word"
type_synonym bytes = "byte list"

text \<open>\<^verbatim>\<open>v[i:j]\<close>, for \<open>i \<le> j \<le> length v\<close>.\<close>

definition bytes_slice :: "bytes \<Rightarrow> nat \<Rightarrow> nat \<Rightarrow> bytes" where
  "bytes_slice v i j = take (j - i) (drop i v)"

text \<open>Go's builtin \<^verbatim>\<open>copy(dst, src)\<close>: the first \<open>min (len dst) (len src)\<close> bytes of
  \<open>dst\<close> are overwritten; the result is the new contents of \<open>dst\<close>.\<close>

definition go_copy :: "bytes \<Rightarrow> bytes \<Rightarrow> bytes" where
  "go_copy dst src =
     take (min (length dst) (length src)) src @ drop (min (length dst) (length src)) dst"

text \<open>\<^verbatim>\<open>copy(v[i:j], src)\<close> as an update of \<open>v\<close>, for \<open>i \<le> j \<le> length v\<close>.\<close>

definition copy_at :: "bytes \<Rightarrow> nat \<Rightarrow> nat \<Rightarrow> bytes \<Rightarrow> bytes" where
  "copy_at v i j src = take i v @ go_copy (bytes_slice v i j) src @ drop j v"

text \<open>\<^verbatim>\<open>make([]byte, n)\<close>.\<close>

definition make_bytes :: "nat \<Rightarrow> bytes" where
  "make_bytes n = replicate n 0"

text \<open>\<^verbatim>\<open>byteOrder = binary.BigEndian\<close>. \<open>Uint32\<close> and \<open>Uint64\<close> read the first 4
  (8) bytes of their argument; \<open>PutUint32\<close> and \<open>PutUint64\<close> give the 4 (8) bytes that
  the Go functions write into their destination.\<close>

definition Uint32 :: "bytes \<Rightarrow> 32 word" where
  "Uint32 b = ucast (b ! 3) OR push_bit 8 (ucast (b ! 2)) OR push_bit 16 (ucast (b ! 1))
     OR push_bit 24 (ucast (b ! 0))"

definition PutUint32 :: "32 word \<Rightarrow> bytes" where
  "PutUint32 v = [ucast (drop_bit 24 v), ucast (drop_bit 16 v), ucast (drop_bit 8 v), ucast v]"

definition Uint64 :: "bytes \<Rightarrow> 64 word" where
  "Uint64 b = ucast (b ! 7) OR push_bit 8 (ucast (b ! 6)) OR push_bit 16 (ucast (b ! 5))
     OR push_bit 24 (ucast (b ! 4)) OR push_bit 32 (ucast (b ! 3)) OR push_bit 40 (ucast (b ! 2))
     OR push_bit 48 (ucast (b ! 1)) OR push_bit 56 (ucast (b ! 0))"

definition PutUint64 :: "64 word \<Rightarrow> bytes" where
  "PutUint64 v = [ucast (drop_bit 56 v), ucast (drop_bit 48 v), ucast (drop_bit 40 v),
     ucast (drop_bit 32 v), ucast (drop_bit 24 v), ucast (drop_bit 16 v), ucast (drop_bit 8 v),
     ucast v]"

text \<open>\<^verbatim>\<open>bytes.HasPrefix(s, prefix)\<close>.\<close>

definition HasPrefix :: "bytes \<Rightarrow> bytes \<Rightarrow> bool" where
  "HasPrefix s p = (length p \<le> length s \<and> take (length p) s = p)"

section \<open>Errors\<close>

text \<open>
  Modelled from the spec: the error kinds of its section 7. db.go builds every store
  error with \<^verbatim>\<open>storeError(code, desc, err)\<close>; the type of the codes is declared in
  error.go, which is not part of the sources at hand. The description strings are
  dropped.
\<close>

datatype ErrorCode =
  ErrDatabase | ErrData | ErrInput | ErrAlreadyExists | ErrNoExists | ErrValueNoExists
  | ErrUnknownVersion

text \<open>
  What a call can end in other than a normal return: a store error, a plain error of
  the engine handed on unwrapped, an error built with \<^verbatim>\<open>fmt.Errorf\<close>, or a run-time
  panic (index or slice out of range, nil bucket).
\<close>

datatype failure = StoreError ErrorCode | EngineError | Errorf | Panic

definition storeError :: "ErrorCode \<Rightarrow> failure" where
  "storeError c = StoreError c"

section \<open>Canonical outpoints\<close>

record OutPoint =
  op_Hash :: bytes
  op_Index :: "32 word"
  op_Tree :: "8 word"

text \<open>The two transaction trees of dcrutil, an int8 each.\<close>

definition TxTreeRegular :: "8 word" where
  "TxTreeRegular = 0"

definition TxTreeStake :: "8 word" where
  "TxTreeStake = 1"

definition canonicalOutPoint :: "bytes \<Rightarrow> 32 word \<Rightarrow> bytes" where
  "canonicalOutPoint txHash index =
     (let k = make_bytes 36;
          k = go_copy k txHash
      in copy_at k 32 36 (PutUint32 index))"

definition readCanonicalOutPoint :: "bytes \<Rightarrow> OutPoint \<Rightarrow> failure + OutPoint" where
  "readCanonicalOutPoint k op =
     (if length k < 36 then Inl (storeError ErrData)
      else Inr (op\<lparr>op_Hash := go_copy (op_Hash op) k,
                   op_Index := Uint32 (bytes_slice k 32 36)\<rparr>))"

section \<open>The multisig store\<close>

text \<open>
  The value of a multisig output is 135 bytes:
  script hash [0:20], m [20], n [21], flags [22] (bit 0 Spent, bit 1 Tree),
  block hash [23:55], block height [55:59], amount [59:67], SpentBy [67:99],
  SpentByIndex [99:103], tx hash [103:135].
\<close>

record MultisigOut =
  mso_OutPoint :: OutPoint
  mso_ScriptHash :: bytes
  mso_M :: byte
  mso_N :: byte
  mso_Spent :: bool
  mso_Tree :: "8 word"
  mso_BlockHash :: bytes
  mso_BlockHeight :: "32 word"
  mso_Amount :: "64 word"
  mso_SpentBy :: bytes
  mso_SpentByIndex :: "32 word"
  mso_TxHash :: bytes

definition keyMultisigOut :: "bytes \<Rightarrow> 32 word \<Rightarrow> bytes" where
  "keyMultisigOut hash index = canonicalOutPoint hash index"

definition valueMultisigOut ::
  "bytes \<Rightarrow> byte \<Rightarrow> byte \<Rightarrow> bool \<Rightarrow> 8 word \<Rightarrow> bytes \<Rightarrow> 32 word \<Rightarrow> 64 word \<Rightarrow> bytes
     \<Rightarrow> 32 word \<Rightarrow> bytes \<Rightarrow> bytes" where
  "valueMultisigOut sh m n spent tree blockHash blockHeight amount spentBy sbi txHash =
     (let v = make_bytes 135;
          v = copy_at v 0 20 (bytes_slice sh 0 20);
          v = v[20 := m];
          v = v[21 := n];
          v = v[22 := 0];
          v = (if spent then v[22 := v ! 22 OR push_bit 0 1] else v);
          v = (if tree = TxTreeStake then v[22 := v ! 22 OR push_bit 1 1] else v);
          v = copy_at v 23 55 blockHash;
          v = copy_at v 55 59 (PutUint32 blockHeight);
          v = copy_at v 59 67 (PutUint64 amount);
          v = copy_at v 67 99 spentBy;
          v = copy_at v 99 103 (PutUint32 sbi)
      in copy_at v 103 135 txHash)"

definition fetchMultisigOut :: "bytes \<Rightarrow> bytes \<Rightarrow> failure + MultisigOut" where
  "fetchMultisigOut k v =
     (if length k \<noteq> 36 then Inl (storeError ErrDatabase)
      else if length v \<noteq> 135 then Inl (storeError ErrDatabase)
      else
        (case readCanonicalOutPoint k
                \<lparr>op_Hash = make_bytes 32, op_Index = 0, op_Tree = 0\<rparr> of
           Inl e \<Rightarrow> Inl e
         | Inr op \<Rightarrow>
             Inr \<lparr>mso_OutPoint = op\<lparr>op_Tree := TxTreeRegular\<rparr>,
                  mso_ScriptHash = go_copy (make_bytes 20) (bytes_slice v 0 20),
                  mso_M = v ! 20,
                  mso_N = v ! 21,
                  mso_Spent = (v ! 22 AND push_bit 0 1 \<noteq> 0),
                  mso_Tree = (if v ! 22 AND push_bit 1 1 \<noteq> 0 then 1 else 0),
                  mso_BlockHash = go_copy (make_bytes 32) (bytes_slice v 23 55),
                  mso_BlockHeight = Uint32 (bytes_slice v 55 59),
                  mso_Amount = Uint64 (bytes_slice v 59 67),
                  mso_SpentBy = go_copy (make_bytes 32) (bytes_slice v 67 99),
                  mso_SpentByIndex = Uint32 (bytes_slice v 99 103),
                  mso_TxHash = go_copy (make_bytes 32) (bytes_slice v 103 135)\<rparr>))"

definition fetchMultisigOutSpent :: "bytes \<Rightarrow> failure + bool" where
  "fetchMultisigOutSpent v =
     (if length v \<le> 22 then Inl Panic else Inr (v ! 22 AND push_bit 0 1 \<noteq> 0))"

definition fetchMultisigOutTree :: "bytes \<Rightarrow> failure + 8 word" where
  "fetchMultisigOutTree v =
     (if length v \<le> 22 then Inl Panic
      else Inr (if v ! 22 AND push_bit 1 1 \<noteq> 0 then TxTreeStake else TxTreeRegular))"

definition fetchMultisigOutSpentVerbose :: "bytes \<Rightarrow> failure + (bool \<times> bytes \<times> 32 word)" where
  "fetchMultisigOutSpentVerbose v =
     (if length v < 103 then Inl Panic
      else Inr (v ! 22 AND push_bit 0 1 \<noteq> 0,
                go_copy (make_bytes 32) (bytes_slice v 67 99),
                Uint32 (bytes_slice v 99 103)))"

text \<open>The setters write into the slice they are given; the model returns the new
  contents.\<close>

definition setMultisigOutSpent :: "bytes \<Rightarrow> bytes \<Rightarrow> 32 word \<Rightarrow> failure + bytes" where
  "setMultisigOutSpent v spendHash spendIndex =
     (if length v < 103 then Inl Panic
      else
        Inr (let spentByte = (0 :: byte);
                 spentByte = spentByte OR push_bit 0 1;
                 v = v[22 := spentByte];
                 v = copy_at v 67 99 spendHash
             in copy_at v 99 103 (PutUint32 spendIndex)))"

definition setMultisigOutUnSpent :: "bytes \<Rightarrow> failure + bytes" where
  "setMultisigOutUnSpent v =
     (if length v < 103 then Inl Panic
      else
        Inr (let empty = make_bytes 32;
                 spentByte = (0 :: byte);
                 v = v[22 := spentByte];
                 v = copy_at v 67 98 empty
             in copy_at v 99 103 (PutUint32 0xFFFFFFFF)))"

subsection \<open>What the setters leave alone\<close>

lemma length_go_copy [simp]: "length (go_copy dst src) = length dst"
  by (simp add: go_copy_def)

lemma length_copy_at [simp]:
  "i \<le> j \<Longrightarrow> j \<le> length v \<Longrightarrow> length (copy_at v i j src) = length v"
  by (simp add: copy_at_def bytes_slice_def)

lemma length_PutUint32 [simp]: "length (PutUint32 w) = 4"
  by (simp add: PutUint32_def)

lemma length_PutUint64 [simp]: "length (PutUint64 w) = 8"
  by (simp add: PutUint64_def)

lemma nth_copy_at_outside:
  "i \<le> j \<Longrightarrow> j \<le> length v \<Longrightarrow> n < length v \<Longrightarrow> n < i \<or> j \<le> n
     \<Longrightarrow> copy_at v i j src ! n = v ! n"
  by (auto simp add: copy_at_def bytes_slice_def go_copy_def nth_append min_def)

lemma setMultisigOutSpent_frame:
  assumes "setMultisigOutSpent v h i = Inr v'"
    and "n < length v" and "n \<noteq> 22" and "n < 67 \<or> 103 \<le> n"
  shows "length v' = length v \<and> v' ! n = v ! n"
  using assms
  by (auto simp add: setMultisigOutSpent_def Let_def nth_copy_at_outside split: if_splits)

lemma setMultisigOutUnSpent_frame:
  assumes "setMultisigOutUnSpent v = Inr v'"
    and "n < length v" and "n \<noteq> 22" and "n < 67 \<or> 103 \<le> n"
  shows "length v' = length v \<and> v' ! n = v ! n"
  using assms
  by (auto simp add: setMultisigOutUnSpent_def Let_def nth_copy_at_outside split: if_splits)

lemma setMultisigOutSpent_flags:
  "103 \<le> length v \<Longrightarrow> \<exists>v'. setMultisigOutSpent v h i = Inr v' \<and> v' ! 22 = 1"
  by (simp add: setMultisigOutSpent_def Let_def nth_copy_at_outside)

lemma setMultisigOutUnSpent_flags:
  "103 \<le> length v \<Longrightarrow> \<exists>v'. setMultisigOutUnSpent v = Inr v' \<and> v' ! 22 = 0"
  by (simp add: setMultisigOutUnSpent_def Let_def nth_copy_at_outside)

text \<open>
  C6. setMultisigOutSpent and setMultisigOutUnSpent are claimed to leave every byte
  outside the Spent bit, SpentBy and SpentByIndex unchanged, the Tree bit of the flags
  byte included. Both store a whole new flags byte instead: on the value that
  valueMultisigOut writes for an unspent output of the stake tree, the Tree bit reads
  back as stake before and as regular after either setter.
\<close>

theorem setMultisigOut_clears_tree:
  "fetchMultisigOutTree
     (valueMultisigOut (make_bytes 20) 1 2 False TxTreeStake (make_bytes 32) 50 7
        (make_bytes 32) 0 (make_bytes 32)) = Inr TxTreeStake
   \<and> (\<exists>v'. setMultisigOutSpent
         (valueMultisigOut (make_bytes 20) 1 2 False TxTreeStake (make_bytes 32) 50 7
            (make_bytes 32) 0 (make_bytes 32)) (make_bytes 32) 3 = Inr v'
        \<and> fetchMultisigOutTree v' = Inr TxTreeRegular)
   \<and> (\<exists>v'. setMultisigOutUnSpent
         (valueMultisigOut (make_bytes 20) 1 2 False TxTreeStake (make_bytes 32) 50 7
            (make_bytes 32) 0 (make_bytes 32)) = Inr v'
        \<and> fetchMultisigOutTree v' = Inr TxTreeRegular)"
proof -
  define v where "v = valueMultisigOut (make_bytes 20) 1 2 False TxTreeStake (make_bytes 32) 50 7
        (make_bytes 32) 0 (make_bytes 32)"
  have len: "length v = 135"
    by (simp add: v_def valueMultisigOut_def Let_def make_bytes_def TxTreeStake_def)
  have flags: "v ! 22 = 2"
    by (simp add: v_def valueMultisigOut_def Let_def make_bytes_def TxTreeStake_def
        nth_copy_at_outside)
  have before: "fetchMultisigOutTree v = Inr TxTreeStake"
    by (simp add: fetchMultisigOutTree_def len flags)
  obtain v1 where v1: "setMultisigOutSpent v (make_bytes 32) 3 = Inr v1" "v1 ! 22 = 1"
    using setMultisigOutSpent_flags [of v] len by auto
  have len1: "length v1 = 135"
    using v1(1) len by (auto simp add: setMultisigOutSpent_def Let_def split: if_splits)
  have after1: "fetchMultisigOutTree v1 = Inr TxTreeRegular"
    by (simp add: fetchMultisigOutTree_def len1 v1(2))
  obtain v2 where v2: "setMultisigOutUnSpent v = Inr v2" "v2 ! 22 = 0"
    using setMultisigOutUnSpent_flags [of v] len by auto
  have len2: "length v2 = 135"
    using v2(1) len by (auto simp add: setMultisigOutUnSpent_def Let_def split: if_splits)
  have after2: "fetchMultisigOutTree v2 = Inr TxTreeRegular"
    by (simp add: fetchMultisigOutTree_def len2 v2(2))
  show ?thesis
    unfolding v_def [symmetric] using before v1(1) after1 v2(1) after2 by blast
qed

subsection \<open>The error kind of fetchMultisigOut\<close>

lemma fetchMultisigOut_wrong_size:
  "length k \<noteq> 36 \<or> length v \<noteq> 135 \<Longrightarrow> fetchMultisigOut k v = Inl (StoreError ErrDatabase)"
  by (auto simp add: fetchMultisigOut_def storeError_def)

text \<open>
  C9. Every decoder is claimed to fail with a Data error on an input of the wrong
  length, fetchMultisigOut in particular. fetchMultisigOut fails with a Database error
  there: on a 35-byte key with a 135-byte value, and on a 36-byte key with a 134-byte
  value, while readCanonicalOutPoint, which it calls on the same key, answers a short
  key with a Data error.
\<close>

theorem fetchMultisigOut_short_is_ErrDatabase:
  "fetchMultisigOut (make_bytes 35) (make_bytes 135) = Inl (StoreError ErrDatabase)
   \<and> fetchMultisigOut (make_bytes 36) (make_bytes 134) = Inl (StoreError ErrDatabase)
   \<and> readCanonicalOutPoint (make_bytes 35) \<lparr>op_Hash = make_bytes 32, op_Index = 0, op_Tree = 0\<rparr>
       = Inl (StoreError ErrData)"
  by (simp add: fetchMultisigOut_wrong_size make_bytes_def readCanonicalOutPoint_def
      storeError_def)

section \<open>The key/value engine\<close>

text \<open>
  Modelled from the spec: the engine of its section 6 (package walletdb, a collaborator
  outside the sources at hand): named buckets under the root bucket of a namespace,
  byte keys kept in ascending order, get, put, delete, createBucket, and transactions
  that are writable or not. This is an in-memory engine with that contract: a bucket is
  the list of its key/value pairs in ascending key order; a put or createBucket in a
  transaction that is not writable fails, a put under the name of a bucket fails,
  createBucket fails on an empty name and on a name already taken by a bucket or a
  key, and nothing else fails (begin, commit and rollback in particular).
\<close>

type_synonym kvs = "(bytes \<times> bytes) list"

record Namespace =
  ns_root :: kvs
  ns_buckets :: "(bytes \<times> kvs) list"
  ns_writable :: bool

text \<open>Modelled from the spec: put and delete on the pairs of a bucket, which keep the
  keys in ascending order (the order of \<^verbatim>\<open>bytes.Compare\<close>) and one pair per key.\<close>

fun kv_put :: "bytes \<Rightarrow> bytes \<Rightarrow> kvs \<Rightarrow> kvs" where
  "kv_put k v [] = [(k, v)]"
| "kv_put k v ((ck, cv) # b) =
     (if k = ck then (k, v) # b
      else if k < ck then (k, v) # (ck, cv) # b
      else (ck, cv) # kv_put k v b)"

definition kv_delete :: "bytes \<Rightarrow> kvs \<Rightarrow> kvs" where
  "kv_delete k b = filter (\<lambda>p. fst p \<noteq> k) b"

text \<open>The engine hands out a nil slice for a missing key: \<open>None\<close>. \<open>len_of\<close> is
  Go's \<^verbatim>\<open>len\<close> and \<open>bytes_of\<close> the contents, both defined on nil.\<close>

definition len_of :: "bytes option \<Rightarrow> nat" where
  "len_of v = (case v of None \<Rightarrow> 0 | Some b \<Rightarrow> length b)"

definition bytes_of :: "bytes option \<Rightarrow> bytes" where
  "bytes_of v = (case v of None \<Rightarrow> [] | Some b \<Rightarrow> b)"

text \<open>Modelled from the spec: \<^verbatim>\<open>ns.Get(k)\<close> and \<^verbatim>\<open>ns.Put(k, v)\<close> on the root
  bucket.\<close>

definition Get :: "Namespace \<Rightarrow> bytes \<Rightarrow> bytes option" where
  "Get ns k = map_of (ns_root ns) k"

definition Put :: "Namespace \<Rightarrow> bytes \<Rightarrow> bytes \<Rightarrow> failure + Namespace" where
  "Put ns k v =
     (if ns_writable ns \<and> map_of (ns_buckets ns) k = None
      then Inr (ns\<lparr>ns_root := kv_put k v (ns_root ns)\<rparr>)
      else Inl EngineError)"

text \<open>Modelled from the spec: \<^verbatim>\<open>ns.CreateBucket(name)\<close>.\<close>

definition CreateBucket :: "Namespace \<Rightarrow> bytes \<Rightarrow> failure + Namespace" where
  "CreateBucket ns name =
     (if ns_writable ns \<and> name \<noteq> [] \<and> map_of (ns_buckets ns) name = None
         \<and> map_of (ns_root ns) name = None
      then Inr (ns\<lparr>ns_buckets := ns_buckets ns @ [(name, [])]\<rparr>)
      else Inl EngineError)"

text \<open>Modelled from the spec: \<^verbatim>\<open>ns.Bucket(name)\<close>, nil (\<open>None\<close>) when there is no
  such bucket, and \<^verbatim>\<open>Get\<close>, \<^verbatim>\<open>Put\<close>, \<^verbatim>\<open>Delete\<close> called on its result; a method
  called on the nil bucket panics.\<close>

definition Bucket :: "Namespace \<Rightarrow> bytes \<Rightarrow> kvs option" where
  "Bucket ns name = map_of (ns_buckets ns) name"

definition BucketGet :: "Namespace \<Rightarrow> bytes \<Rightarrow> bytes \<Rightarrow> failure + bytes option" where
  "BucketGet ns name k =
     (case Bucket ns name of None \<Rightarrow> Inl Panic | Some b \<Rightarrow> Inr (map_of b k))"

definition BucketPut :: "Namespace \<Rightarrow> bytes \<Rightarrow> bytes \<Rightarrow> bytes \<Rightarrow> failure + Namespace" where
  "BucketPut ns name k v =
     (case Bucket ns name of
        None \<Rightarrow> Inl Panic
      | Some b \<Rightarrow>
          if ns_writable ns
          then Inr (ns\<lparr>ns_buckets := AList.update name (kv_put k v b) (ns_buckets ns)\<rparr>)
          else Inl EngineError)"

definition BucketDelete :: "Namespace \<Rightarrow> bytes \<Rightarrow> bytes \<Rightarrow> failure + Namespace" where
  "BucketDelete ns name k =
     (case Bucket ns name of
        None \<Rightarrow> Inl Panic
      | Some b \<Rightarrow>
          if ns_writable ns
          then Inr (ns\<lparr>ns_buckets := AList.update name (kv_delete k b) (ns_buckets ns)\<rparr>)
          else Inl EngineError)"

text \<open>Sequencing of calls that may fail, and the recurring
  \<^verbatim>\<open>if err != nil { return storeError(code, str, err) }\<close>, which wraps an error of
  the engine and lets a panic pass.\<close>

definition and_then :: "failure + 'a \<Rightarrow> ('a \<Rightarrow> failure + 'b) \<Rightarrow> failure + 'b" where
  "and_then m f = (case m of Inl e \<Rightarrow> Inl e | Inr x \<Rightarrow> f x)"

definition wrap_error :: "ErrorCode \<Rightarrow> failure + 'a \<Rightarrow> failure + 'a" where
  "wrap_error c m =
     (case m of Inl Panic \<Rightarrow> Inl Panic | Inl e \<Rightarrow> Inl (storeError c) | Inr x \<Rightarrow> Inr x)"

text \<open>\<^verbatim>\<open>scopedUpdate\<close>: the body runs on the root bucket of a writable transaction;
  an error of the body rolls the transaction back (the namespace stays as it was), a
  normal return commits it. The branches for an error of \<^verbatim>\<open>Begin\<close>, \<^verbatim>\<open>Commit\<close> or
  \<^verbatim>\<open>Rollback\<close> are not reached with this engine.\<close>

definition scopedUpdate ::
  "Namespace \<Rightarrow> (Namespace \<Rightarrow> failure + Namespace) \<Rightarrow> failure + Namespace" where
  "scopedUpdate ns f =
     (case f (ns\<lparr>ns_writable := True\<rparr>) of
        Inl e \<Rightarrow> Inl e
      | Inr tx \<Rightarrow> Inr (tx\<lparr>ns_writable := ns_writable ns\<rparr>))"

section \<open>Bucket names and root keys\<close>

text \<open>The names are the ASCII bytes of "b", "t", "c", "u", "d", "m", "mc", "mi", "sc",
  "ms", "mu", and of "date", "vers", "bal".\<close>

definition bucketBlocks :: bytes where "bucketBlocks = [0x62]"
definition bucketTxRecords :: bytes where "bucketTxRecords = [0x74]"
definition bucketCredits :: bytes where "bucketCredits = [0x63]"
definition bucketUnspent :: bytes where "bucketUnspent = [0x75]"
definition bucketDebits :: bytes where "bucketDebits = [0x64]"
definition bucketUnmined :: bytes where "bucketUnmined = [0x6d]"
definition bucketUnminedCredits :: bytes where "bucketUnminedCredits = [0x6d, 0x63]"
definition bucketUnminedInputs :: bytes where "bucketUnminedInputs = [0x6d, 0x69]"
definition bucketScripts :: bytes where "bucketScripts = [0x73, 0x63]"
definition bucketMultisig :: bytes where "bucketMultisig = [0x6d, 0x73]"
definition bucketMultisigUsp :: bytes where "bucketMultisigUsp = [0x6d, 0x75]"

definition rootCreateDate :: bytes where "rootCreateDate = [0x64, 0x61, 0x74, 0x65]"
definition rootVersion :: bytes where "rootVersion = [0x76, 0x65, 0x72, 0x73]"
definition rootMinedBalance :: bytes where "rootMinedBalance = [0x62, 0x61, 0x6c]"

definition LatestVersion :: "32 word" where
  "LatestVersion = 2"

section \<open>The mined balance\<close>

definition fetchMinedBalance :: "Namespace \<Rightarrow> failure + 64 word" where
  "fetchMinedBalance ns =
     (let v = Get ns rootMinedBalance
      in if len_of v \<noteq> 8 then Inl (storeError ErrData) else Inr (Uint64 (bytes_of v)))"

definition putMinedBalance :: "Namespace \<Rightarrow> 64 word \<Rightarrow> failure + Namespace" where
  "putMinedBalance ns amt =
     (let v = make_bytes 8;
          v = go_copy v (PutUint64 amt)
      in wrap_error ErrDatabase (Put ns rootMinedBalance v))"

section \<open>Creating the store\<close>

text \<open>The body that createStore runs inside scopedUpdate; \<open>now\<close> is
  \<^verbatim>\<open>time.Now().Unix()\<close>. \<^verbatim>\<open>ns.Cursor().First()\<close> is nil exactly when the root
  bucket holds neither a key nor a bucket.\<close>

definition createStore_body :: "64 word \<Rightarrow> Namespace \<Rightarrow> failure + Namespace" where
  "createStore_body now ns =
     (if ns_root ns \<noteq> [] \<or> ns_buckets ns \<noteq> [] then Inl (storeError ErrAlreadyExists)
      else
        and_then (wrap_error ErrDatabase
          (Put ns rootVersion (go_copy (make_bytes 4) (PutUint32 LatestVersion)))) (\<lambda>ns.
        and_then (wrap_error ErrDatabase
          (Put ns rootCreateDate (go_copy (make_bytes 8) (PutUint64 now)))) (\<lambda>ns.
        and_then (wrap_error ErrDatabase (Put ns rootMinedBalance (make_bytes 8))) (\<lambda>ns.
        and_then (wrap_error ErrDatabase (CreateBucket ns bucketBlocks)) (\<lambda>ns.
        and_then (wrap_error ErrDatabase (CreateBucket ns bucketTxRecords)) (\<lambda>ns.
        and_then (wrap_error ErrDatabase (CreateBucket ns bucketCredits)) (\<lambda>ns.
        and_then (wrap_error ErrDatabase (CreateBucket ns bucketDebits)) (\<lambda>ns.
        and_then (wrap_error ErrDatabase (CreateBucket ns bucketUnspent)) (\<lambda>ns.
        and_then (wrap_error ErrDatabase (CreateBucket ns bucketUnmined)) (\<lambda>ns.
        and_then (wrap_error ErrDatabase (CreateBucket ns bucketUnminedCredits)) (\<lambda>ns.
        and_then (wrap_error ErrDatabase (CreateBucket ns bucketUnminedInputs)) (\<lambda>ns.
        and_then (wrap_error ErrDatabase (CreateBucket ns bucketScripts)) (\<lambda>ns.
        and_then (wrap_error ErrDatabase (CreateBucket ns bucketMultisig)) (\<lambda>ns.
        wrap_error ErrDatabase (CreateBucket ns bucketMultisigUsp)))))))))))))))"

text \<open>createStore: a store error of the body keeps its code (only its description is
  extended); any other error becomes a Database error.\<close>

definition createStore :: "64 word \<Rightarrow> Namespace \<Rightarrow> failure + Namespace" where
  "createStore now namespace =
     (case scopedUpdate namespace (createStore_body now) of
        Inl (StoreError c) \<Rightarrow> Inl (StoreError c)
      | Inl Panic \<Rightarrow> Inl Panic
      | Inl e \<Rightarrow> Inl (storeError ErrDatabase)
      | Inr ns \<Rightarrow> Inr ns)"

section \<open>Transaction records\<close>

text \<open>
  The value of a transaction record is the received time [0:8] followed by the
  serialized transaction. Deserializing a transaction is the work of package wire; of
  its result only the pkScripts of the outputs matter here. \<open>txouts\<close> stands for what
  \<^verbatim>\<open>MsgTx.Deserialize\<close> makes of \<^verbatim>\<open>v[8:]\<close>: \<open>None\<close> when it fails, else the scripts
  of \<^verbatim>\<open>MsgTx.TxOut\<close> in order.
\<close>

definition scriptLocNotStored :: "32 word" where
  "scriptLocNotStored = 0"

definition int64Size :: nat where
  "int64Size = 8"

definition readRawTxRecord :: "bytes list option \<Rightarrow> bytes \<Rightarrow> failure + bytes list" where
  "readRawTxRecord txouts v =
     (if length v < 8 then Inl (storeError ErrData)
      else case txouts of None \<Rightarrow> Inl (storeError ErrData) | Some outs \<Rightarrow> Inr outs)"

definition fetchRawTxRecordPkScript ::
  "bytes list option \<Rightarrow> bytes \<Rightarrow> bytes \<Rightarrow> 32 word \<Rightarrow> 32 word \<Rightarrow> 32 word \<Rightarrow> failure + bytes" where
  "fetchRawTxRecordPkScript txouts k v index scrLoc scrLen =
     (if scrLoc = scriptLocNotStored then
        (case readRawTxRecord txouts v of
           Inl e \<Rightarrow> Inl e
         | Inr outs \<Rightarrow>
             if unat index \<ge> length outs then Inl (storeError ErrData)
             else Inr (outs ! unat index))
      else
        (let scrLocInt = unat scrLoc + int64Size;
             scrLenInt = unat scrLen
         in if scrLocInt + scrLenInt > length v then Inl Panic
            else Inr (go_copy (make_bytes scrLenInt)
                        (bytes_slice v scrLocInt (scrLocInt + scrLenInt)))))"

section \<open>Credits\<close>

text \<open>
  The key of a credit is 72 bytes: tx hash [0:32], block height [32:36], block hash
  [36:68], output index [68:72]. Its value is 94 bytes: amount [0:8], flags [8] (bit 0
  Spent, bit 1 Change, bits 2 to 4 the stake opcode, bit 5 IsCoinbase), the key of the
  spending debit [9:81], script type and account flag [81], script offset [82:86],
  script length [86:90], account [90:94].

  Of the structs declared outside db.go, the fields that db.go reads.
\<close>

record Block =
  blk_Hash :: bytes
  blk_Height :: "32 word"

record indexedIncidence =
  ii_txHash :: bytes
  ii_block :: Block
  ii_index :: "32 word"

record credit =
  cr_outPoint :: OutPoint
  cr_block :: Block
  cr_amount :: "64 word"
  cr_change :: bool
  cr_opCode :: byte
  cr_isCoinbase :: bool

definition accountExistsMask :: byte where
  "accountExistsMask = 0x80"

definition creditKeySize :: nat where
  "creditKeySize = 72"

definition creditValueSize :: nat where
  "creditValueSize = 94"

definition keyCredit :: "bytes \<Rightarrow> 32 word \<Rightarrow> Block \<Rightarrow> bytes" where
  "keyCredit txHash index block =
     (let k = make_bytes creditKeySize;
          k = go_copy k txHash;
          k = copy_at k 32 36 (PutUint32 (blk_Height block));
          k = copy_at k 36 68 (blk_Hash block)
      in copy_at k 68 72 (PutUint32 index))"

definition condenseOpCode :: "byte \<Rightarrow> byte" where
  "condenseOpCode opCode = push_bit 2 (opCode - 0xb9)"

definition valueUnspentCredit :: "credit \<Rightarrow> byte \<Rightarrow> 32 word \<Rightarrow> 32 word \<Rightarrow> 32 word \<Rightarrow> bytes" where
  "valueUnspentCredit cred scrType scrLoc scrLen account =
     (let v = make_bytes creditValueSize;
          v = go_copy v (PutUint64 (cr_amount cred));
          v = v[8 := condenseOpCode (cr_opCode cred)];
          v = (if cr_change cred then v[8 := v ! 8 OR push_bit 1 1] else v);
          v = (if cr_isCoinbase cred then v[8 := v ! 8 OR push_bit 5 1] else v);
          v = v[81 := scrType];
          v = v[81 := v ! 81 OR accountExistsMask];
          v = copy_at v 82 86 (PutUint32 scrLoc);
          v = copy_at v 86 90 (PutUint32 scrLen)
      in copy_at v 90 94 (PutUint32 account))"

definition putRawCredit :: "Namespace \<Rightarrow> bytes \<Rightarrow> bytes \<Rightarrow> failure + Namespace" where
  "putRawCredit ns k v = wrap_error ErrDatabase (BucketPut ns bucketCredits k v)"

definition putUnspentCredit ::
  "Namespace \<Rightarrow> credit \<Rightarrow> byte \<Rightarrow> 32 word \<Rightarrow> 32 word \<Rightarrow> 32 word \<Rightarrow> failure + Namespace" where
  "putUnspentCredit ns cred scrType scrLoc scrLen account =
     (let k = keyCredit (op_Hash (cr_outPoint cred)) (op_Index (cr_outPoint cred))
                (cr_block cred);
          v = valueUnspentCredit cred scrType scrLoc scrLen account
      in putRawCredit ns k v)"

definition fetchRawCreditAmount :: "bytes \<Rightarrow> failure + 64 word" where
  "fetchRawCreditAmount v =
     (if length v < 9 then Inl (storeError ErrData) else Inr (Uint64 v))"

definition fetchRawCreditAmountSpent :: "bytes \<Rightarrow> failure + (64 word \<times> bool)" where
  "fetchRawCreditAmountSpent v =
     (if length v < 9 then Inl (storeError ErrData)
      else Inr (Uint64 v, v ! 8 AND push_bit 0 1 \<noteq> 0))"

text \<open>spendCredit. The value it writes is computed from the value it fetched (nil when
  the key is missing) by \<open>spendCredit_value\<close>, the statements between the get and the
  put. A Go call returns its amount next to the error; the model keeps the amount of a
  call that returns no error.\<close>

definition spendCredit_value :: "bytes option \<Rightarrow> indexedIncidence \<Rightarrow> bytes" where
  "spendCredit_value v spender =
     (let newv = make_bytes creditValueSize;
          newv = go_copy newv (bytes_of v);
          v = newv;
          v = v[8 := v ! 8 OR push_bit 0 1];
          v = copy_at v 9 41 (ii_txHash spender);
          v = copy_at v 41 45 (PutUint32 (blk_Height (ii_block spender)));
          v = copy_at v 45 77 (blk_Hash (ii_block spender))
      in copy_at v 77 81 (PutUint32 (ii_index spender)))"

definition spendCredit ::
  "Namespace \<Rightarrow> bytes \<Rightarrow> indexedIncidence \<Rightarrow> failure + (64 word \<times> Namespace)" where
  "spendCredit ns k spender =
     (case BucketGet ns bucketCredits k of
        Inl e \<Rightarrow> Inl e
      | Inr v \<Rightarrow>
          (let v = spendCredit_value v spender
           in case putRawCredit ns k v of
                Inl e \<Rightarrow> Inl e
              | Inr ns' \<Rightarrow> Inr (Uint64 (bytes_slice v 0 8), ns')))"

text \<open>unspendRawCredit reads the amount from the value it fetched, after the put;
  \<^verbatim>\<open>v[0:8]\<close> of a value shorter than 8 bytes panics.\<close>

definition unspendRawCredit :: "Namespace \<Rightarrow> bytes \<Rightarrow> failure + (64 word \<times> Namespace)" where
  "unspendRawCredit ns k =
     (case BucketGet ns bucketCredits k of
        Inl e \<Rightarrow> Inl e
      | Inr None \<Rightarrow> Inr (0, ns)
      | Inr (Some v) \<Rightarrow>
          (let newv = make_bytes creditValueSize;
               newv = go_copy newv v;
               newv = newv[8 := newv ! 8 AND NOT (push_bit 0 1)]
           in case wrap_error ErrDatabase (BucketPut ns bucketCredits k newv) of
                Inl e \<Rightarrow> Inl e
              | Inr ns' \<Rightarrow>
                  if length v < 8 then Inl Panic
                  else Inr (Uint64 (bytes_slice v 0 8), ns')))"

definition existsRawCredit :: "Namespace \<Rightarrow> bytes \<Rightarrow> failure + bytes option" where
  "existsRawCredit ns k = BucketGet ns bucketCredits k"

definition deleteRawCredit :: "Namespace \<Rightarrow> bytes \<Rightarrow> failure + Namespace" where
  "deleteRawCredit ns k = wrap_error ErrDatabase (BucketDelete ns bucketCredits k)"

section \<open>Facts about bytes and the engine\<close>

lemma byte_bit_range: "bit (a :: byte) n \<Longrightarrow> n < 8"
  by (auto dest: bit_imp_le_length)

lemma Uint32_PutUint32: "Uint32 (PutUint32 w) = w"
proof (rule bit_word_eqI)
  fix n assume n: "n < LENGTH(32)"
  consider "n < 8" | "8 \<le> n" "n < 16" | "16 \<le> n" "n < 24" | "24 \<le> n" "n < 32"
    using n by fastforce
  then show "bit (Uint32 (PutUint32 w)) n = bit w n"
    by cases (auto simp add: Uint32_def PutUint32_def bit_simps)
qed

lemma PutUint32_Uint32_bytes: "PutUint32 (Uint32 [a0, a1, a2, a3]) = [a0, a1, a2, a3]"
  unfolding Uint32_def PutUint32_def
  by (simp, intro conjI; rule bit_word_eqI; auto simp add: bit_simps dest: byte_bit_range)

lemma PutUint32_Uint32:
  assumes "length b = 4"
  shows "PutUint32 (Uint32 b) = b"
proof -
  obtain a0 a1 a2 a3 where "b = [a0, a1, a2, a3]"
    using assms by (auto simp add: length_Suc_conv eval_nat_numeral)
  then show ?thesis by (simp only: PutUint32_Uint32_bytes)
qed

lemma Uint64_zero: "Uint64 (replicate 8 0) = 0"
  by (simp add: Uint64_def)

lemma Uint64_slice: "8 \<le> length v \<Longrightarrow> Uint64 (bytes_slice v 0 8) = Uint64 v"
  by (simp add: Uint64_def bytes_slice_def)

lemma Uint64_cong:
  assumes "take 8 a = take 8 b" and "8 \<le> length a" and "8 \<le> length b"
  shows "Uint64 a = Uint64 b"
proof -
  have "a ! i = b ! i" if "i < 8" for i
    using that assms(1) by (metis nth_take)
  then show ?thesis by (simp add: Uint64_def)
qed

lemma copy_at_exact:
  "j \<le> length v \<Longrightarrow> i \<le> j \<Longrightarrow> length src = j - i
     \<Longrightarrow> copy_at v i j src = take i v @ src @ drop j v"
  by (simp add: copy_at_def go_copy_def bytes_slice_def)

lemma take_copy_at:
  "i \<le> j \<Longrightarrow> j \<le> length v \<Longrightarrow> n \<le> i \<Longrightarrow> take n (copy_at v i j src) = take n v"
  by (simp add: copy_at_def min_def)

lemma map_of_kv_put: "map_of (kv_put k v b) k' = (if k' = k then Some v else map_of b k')"
  by (induction b) auto

lemma Bucket_update:
  "Bucket (ns\<lparr>ns_buckets := AList.update name b (ns_buckets ns)\<rparr>) name'
     = (if name' = name then Some b else Bucket ns name')"
  by (simp add: Bucket_def update_conv')

lemmas store_names = bucketBlocks_def bucketTxRecords_def bucketCredits_def bucketUnspent_def
  bucketDebits_def bucketUnmined_def bucketUnminedCredits_def bucketUnminedInputs_def
  bucketScripts_def bucketMultisig_def bucketMultisigUsp_def rootCreateDate_def rootVersion_def
  rootMinedBalance_def

section \<open>The script of a credit\<close>

text \<open>
  C2, as the code has it. For a stored script offset other than 0,
  fetchRawTxRecordPkScript adds the 8 bytes of the received time to the offset before
  it slices: with the slice in range, the script is \<open>v[off + 8 : off + 8 + len]\<close>. The
  stored offset does not include the prefix.
\<close>

theorem fetchRawTxRecordPkScript_stored:
  assumes "scrLoc \<noteq> 0" and "unat scrLoc + 8 + unat scrLen \<le> length v"
  shows "fetchRawTxRecordPkScript txouts k v index scrLoc scrLen
           = Inr (bytes_slice v (unat scrLoc + 8) (unat scrLoc + 8 + unat scrLen))"
  using assms
  by (simp add: fetchRawTxRecordPkScript_def scriptLocNotStored_def int64Size_def Let_def
      go_copy_def make_bytes_def bytes_slice_def)

theorem fetchRawTxRecordPkScript_stored_witness:
  "(1 :: 32 word) \<noteq> 0
   \<and> unat (1 :: 32 word) + 8 + unat (2 :: 32 word)
        \<le> length [0, 1, 2, 3, 4, 5, 6, 7, 8, 9, 10, 11 :: byte]
   \<and> fetchRawTxRecordPkScript None [] [0, 1, 2, 3, 4, 5, 6, 7, 8, 9, 10, 11] 0 1 2
        = Inr [9, 10]"
  using fetchRawTxRecordPkScript_stored
    [of 1 2 "[0, 1, 2, 3, 4, 5, 6, 7, 8, 9, 10, 11]" None "[]" 0]
  by (simp add: bytes_slice_def)

text \<open>
  C2, as the claim states it: the script would be \<open>v[off : off + len]\<close>. On the 12-byte
  value 0, 1, ..., 11 with offset 1 and length 2 the code returns the bytes 9, 10, while
  \<open>v[1:3]\<close> is 1, 2.
\<close>

theorem fetchRawTxRecordPkScript_counterexample:
  "fetchRawTxRecordPkScript None [] [0, 1, 2, 3, 4, 5, 6, 7, 8, 9, 10, 11] 0 1 2 = Inr [9, 10]
   \<and> bytes_slice [0, 1, 2, 3, 4, 5, 6, 7, 8, 9, 10, 11] (unat (1 :: 32 word))
        (unat (1 :: 32 word) + unat (2 :: 32 word)) = [1, 2]
   \<and> [9, 10] \<noteq> [1, 2 :: byte]"
  by (simp add: fetchRawTxRecordPkScript_def scriptLocNotStored_def int64Size_def Let_def
      go_copy_def make_bytes_def bytes_slice_def)

section \<open>Spending and unspending a credit\<close>

lemma spendCredit_value_props:
  assumes "9 \<le> length v"
  shows "length (spendCredit_value (Some v) sp) = 94"
    and "take 8 (spendCredit_value (Some v) sp) = take 8 v"
    and "spendCredit_value (Some v) sp ! 8 = v ! 8 OR 1"
proof -
  define p where "p = go_copy (make_bytes 94) v"
  have p: "length p = 94" "take 8 p = take 8 v" "p ! 8 = v ! 8"
    using assms by (simp_all add: p_def make_bytes_def go_copy_def nth_append min_def)
  have eq: "spendCredit_value (Some v) sp =
      copy_at (copy_at (copy_at (copy_at (p[8 := p ! 8 OR 1]) 9 41 (ii_txHash sp)) 41 45
        (PutUint32 (blk_Height (ii_block sp)))) 45 77 (blk_Hash (ii_block sp))) 77 81
        (PutUint32 (ii_index sp))"
    by (simp add: spendCredit_value_def Let_def creditValueSize_def bytes_of_def p_def)
  show "length (spendCredit_value (Some v) sp) = 94"
    using p(1) by (simp add: eq)
  show "take 8 (spendCredit_value (Some v) sp) = take 8 v"
    using p(1) p(2) by (simp add: eq take_copy_at)
  show "spendCredit_value (Some v) sp ! 8 = v ! 8 OR 1"
    using p(1) p(3) by (simp add: eq nth_copy_at_outside)
qed

lemma spendCredit_eq:
  assumes "Bucket ns bucketCredits = Some b" and "ns_writable ns"
  shows "spendCredit ns k sp =
           Inr (Uint64 (bytes_slice (spendCredit_value (map_of b k) sp) 0 8),
                ns\<lparr>ns_buckets := AList.update bucketCredits
                      (kv_put k (spendCredit_value (map_of b k) sp) b) (ns_buckets ns)\<rparr>)"
  using assms
  by (simp add: spendCredit_def BucketGet_def putRawCredit_def BucketPut_def wrap_error_def
      Let_def)

lemma set_clear_bit0: "((x :: byte) OR 1) AND NOT 1 = x AND NOT 1"
  by (rule bit_word_eqI) (auto simp add: bit_simps)

text \<open>
  C10. spendCredit on a key with no record in the credits bucket returns no error: it
  returns the amount 0 and leaves under the key a 94-byte value that is zero but for
  the flags byte, which is 1 (the Spent bit), and the key of the spender in bytes 9 to
  80.
\<close>

theorem spendCredit_missing:
  assumes "Bucket ns bucketCredits = Some b" and "map_of b k = None" and "ns_writable ns"
    and "length (ii_txHash sp) = 32" and "length (blk_Hash (ii_block sp)) = 32"
  shows "\<exists>ns'. spendCredit ns k sp = Inr (0, ns')
           \<and> BucketGet ns' bucketCredits k =
               Inr (Some (replicate 8 0 @ [1] @ ii_txHash sp
                          @ PutUint32 (blk_Height (ii_block sp)) @ blk_Hash (ii_block sp)
                          @ PutUint32 (ii_index sp) @ replicate 13 0))"
  using assms
  by (simp add: spendCredit_eq spendCredit_value_def BucketGet_def
      Let_def bytes_of_def creditValueSize_def make_bytes_def go_copy_def copy_at_exact
      Bucket_update map_of_kv_put upd_conv_take_nth_drop bytes_slice_def Uint64_zero)

theorem spendCredit_missing_witness:
  "Bucket \<lparr>ns_root = [], ns_buckets = [(bucketCredits, [])], ns_writable = True\<rparr> bucketCredits
     = Some []
   \<and> map_of ([] :: kvs) (replicate 72 7) = None
   \<and> ns_writable \<lparr>ns_root = [], ns_buckets = [(bucketCredits, [])], ns_writable = True\<rparr>
   \<and> length (ii_txHash \<lparr>ii_txHash = replicate 32 1,
          ii_block = \<lparr>blk_Hash = replicate 32 2, blk_Height = 101\<rparr>, ii_index = 0\<rparr>) = 32
   \<and> length (blk_Hash (ii_block \<lparr>ii_txHash = replicate 32 1,
          ii_block = \<lparr>blk_Hash = replicate 32 2, blk_Height = 101\<rparr>, ii_index = 0\<rparr>)) = 32
   \<and> (\<exists>ns'. spendCredit \<lparr>ns_root = [], ns_buckets = [(bucketCredits, [])], ns_writable = True\<rparr>
          (replicate 72 7)
          \<lparr>ii_txHash = replicate 32 1, ii_block = \<lparr>blk_Hash = replicate 32 2, blk_Height = 101\<rparr>,
            ii_index = 0\<rparr> = Inr (0, ns')
        \<and> BucketGet ns' bucketCredits (replicate 72 7) =
             Inr (Some (replicate 8 0 @ [1] @ replicate 32 1 @ [0, 0, 0, 101] @ replicate 32 2
                        @ [0, 0, 0, 0] @ replicate 13 0)))"
  using spendCredit_missing [of "\<lparr>ns_root = [], ns_buckets = [(bucketCredits, [])], ns_writable = True\<rparr>"
      "[]" "replicate 72 7"
      "\<lparr>ii_txHash = replicate 32 1, ii_block = \<lparr>blk_Hash = replicate 32 2, blk_Height = 101\<rparr>,
        ii_index = 0\<rparr>"]
  by (simp add: Bucket_def PutUint32_def)

text \<open>
  C4. For a credit record of at least 9 bytes under the key, spendCredit followed by
  unspendRawCredit on the same key returns the amount of the record both times, and
  leaves a 94-byte value whose bytes 0 to 7 (the amount) are the original ones and
  whose flags byte is the original one with bit 0, the Spent bit, clear.
\<close>

theorem spend_then_unspend:
  assumes "Bucket ns bucketCredits = Some b" and "map_of b k = Some v" and "9 \<le> length v"
    and "ns_writable ns"
  shows "\<exists>ns1 ns2 v2. spendCredit ns k sp = Inr (Uint64 v, ns1)
           \<and> unspendRawCredit ns1 k = Inr (Uint64 v, ns2)
           \<and> BucketGet ns2 bucketCredits k = Inr (Some v2)
           \<and> length v2 = 94 \<and> take 8 v2 = take 8 v \<and> v2 ! 8 = v ! 8 AND NOT 1"
proof -
  define v1 where "v1 = spendCredit_value (Some v) sp"
  define ns1 where
    "ns1 = ns\<lparr>ns_buckets := AList.update bucketCredits (kv_put k v1 b) (ns_buckets ns)\<rparr>"
  define v2 where "v2 = v1[8 := v1 ! 8 AND NOT (push_bit 0 1)]"
  define ns2 where
    "ns2 = ns1\<lparr>ns_buckets :=
       AList.update bucketCredits (kv_put k v2 (kv_put k v1 b)) (ns_buckets ns1)\<rparr>"
  have v1: "length v1 = 94" "take 8 v1 = take 8 v" "v1 ! 8 = v ! 8 OR 1"
    using spendCredit_value_props [OF assms(3), of sp] by (simp_all add: v1_def)
  have amount1: "Uint64 (bytes_slice v1 0 8) = Uint64 v"
  proof -
    have "Uint64 (bytes_slice v1 0 8) = Uint64 v1"
      by (simp add: Uint64_slice v1(1))
    also have "\<dots> = Uint64 v"
      using v1 assms(3) by (intro Uint64_cong) simp_all
    finally show ?thesis .
  qed
  have spend: "spendCredit ns k sp = Inr (Uint64 v, ns1)"
    using spendCredit_eq [OF assms(1) assms(4), of k sp] amount1
    by (simp add: assms(2) v1_def ns1_def)
  have b1: "Bucket ns1 bucketCredits = Some (kv_put k v1 b)" and w1: "ns_writable ns1"
    using assms(4) by (simp_all add: ns1_def Bucket_update)
  have get1: "map_of (kv_put k v1 b) k = Some v1"
    by (simp add: map_of_kv_put)
  have pad1: "go_copy (make_bytes 94) v1 = v1"
    using v1(1) by (simp add: go_copy_def make_bytes_def)
  have unspend: "unspendRawCredit ns1 k = Inr (Uint64 v, ns2)"
    using b1 w1 get1 pad1 v1(1) amount1
    by (simp add: unspendRawCredit_def BucketGet_def BucketPut_def wrap_error_def Let_def
        creditValueSize_def v2_def ns2_def)
  have get2: "BucketGet ns2 bucketCredits k = Inr (Some v2)"
    by (simp add: ns2_def BucketGet_def Bucket_update map_of_kv_put)
  have "v2 ! 8 = (v ! 8 OR 1) AND NOT 1"
    using v1 by (simp add: v2_def)
  then have flags2: "v2 ! 8 = v ! 8 AND NOT 1"
    by (simp only: set_clear_bit0)
  have v2: "length v2 = 94" "take 8 v2 = take 8 v"
    using v1 by (simp_all add: v2_def)
  show ?thesis
    by (intro exI [of _ ns1] exI [of _ ns2] exI [of _ v2] conjI spend unspend get2 v2 flags2)
qed

theorem spend_then_unspend_witness:
  "Bucket \<lparr>ns_root = [], ns_buckets = [(bucketCredits, [(replicate 72 7, PutUint64 500000000 @ 32 # replicate 85 0)])],
       ns_writable = True\<rparr> bucketCredits = Some [(replicate 72 7, PutUint64 500000000 @ 32 # replicate 85 0)]
   \<and> map_of [(replicate 72 7, PutUint64 500000000 @ 32 # replicate 85 0)] (replicate 72 (7 :: byte))
        = Some (PutUint64 500000000 @ 32 # replicate 85 0)
   \<and> 9 \<le> length (PutUint64 500000000 @ 32 # replicate 85 0)
   \<and> ns_writable \<lparr>ns_root = [], ns_buckets = [(bucketCredits, [(replicate 72 7, PutUint64 500000000 @ 32 # replicate 85 0)])],
       ns_writable = True\<rparr>
   \<and> (\<exists>ns1 ns2 v2.
         spendCredit \<lparr>ns_root = [], ns_buckets = [(bucketCredits, [(replicate 72 7, PutUint64 500000000 @ 32 # replicate 85 0)])],
           ns_writable = True\<rparr> (replicate 72 7)
           \<lparr>ii_txHash = replicate 32 1, ii_block = \<lparr>blk_Hash = replicate 32 2, blk_Height = 101\<rparr>,
             ii_index = 0\<rparr> = Inr (500000000, ns1)
         \<and> unspendRawCredit ns1 (replicate 72 7) = Inr (500000000, ns2)
         \<and> BucketGet ns2 bucketCredits (replicate 72 7) = Inr (Some v2)
         \<and> length v2 = 94 \<and> take 8 v2 = PutUint64 500000000 \<and> v2 ! 8 = 32)"
  using spend_then_unspend [of "\<lparr>ns_root = [], ns_buckets = [(bucketCredits, [(replicate 72 7, PutUint64 500000000 @ 32 # replicate 85 0)])],
       ns_writable = True\<rparr>" "[(replicate 72 7, PutUint64 500000000 @ 32 # replicate 85 0)]" "replicate 72 7"
       "PutUint64 500000000 @ 32 # replicate 85 0"
      "\<lparr>ii_txHash = replicate 32 1, ii_block = \<lparr>blk_Hash = replicate 32 2, blk_Height = 101\<rparr>,
        ii_index = 0\<rparr>"]
  by (simp add: Bucket_def PutUint64_def Uint64_def)

section \<open>A fresh store\<close>

definition empty_namespace :: Namespace where
  "empty_namespace = \<lparr>ns_root = [], ns_buckets = [], ns_writable = False\<rparr>"

lemma createStore_empty:
  assumes "ns_root ns = []" and "ns_buckets ns = []"
  shows "createStore now ns =
           Inr (ns\<lparr>ns_root := [(rootMinedBalance, make_bytes 8), (rootCreateDate, PutUint64 now),
                               (rootVersion, PutUint32 2)],
                    ns_buckets := [(bucketBlocks, []), (bucketTxRecords, []), (bucketCredits, []),
                      (bucketDebits, []), (bucketUnspent, []), (bucketUnmined, []),
                      (bucketUnminedCredits, []), (bucketUnminedInputs, []), (bucketScripts, []),
                      (bucketMultisig, []), (bucketMultisigUsp, [])]\<rparr>)"
  using assms
  by (simp add: createStore_def scopedUpdate_def createStore_body_def and_then_def
      wrap_error_def Put_def CreateBucket_def store_names LatestVersion_def make_bytes_def
      go_copy_def)

lemma make_bytes_8: "make_bytes 8 = [0, 0, 0, 0, 0, 0, 0, 0]"
  by (simp add: make_bytes_def eval_nat_numeral)

text \<open>
  C3, as the code has it. On a namespace with no key and no bucket, createStore
  returns no error and commits: vers holds 0, 0, 0, 2; bal holds eight zero bytes and
  fetchMinedBalance returns 0; date holds the creation time; and the namespace has the
  eleven buckets b, t, c, d, u, m, mc, mi, sc, ms, mu, each empty, and no other.
\<close>

theorem createStore_fresh:
  assumes "ns_root ns = []" and "ns_buckets ns = []"
  shows "\<exists>ns'. createStore now ns = Inr ns'
           \<and> Get ns' rootVersion = Some [0, 0, 0, 2]
           \<and> Get ns' rootMinedBalance = Some [0, 0, 0, 0, 0, 0, 0, 0]
           \<and> fetchMinedBalance ns' = Inr 0
           \<and> Get ns' rootCreateDate = Some (PutUint64 now)
           \<and> map fst (ns_buckets ns') =
                [bucketBlocks, bucketTxRecords, bucketCredits, bucketDebits, bucketUnspent,
                 bucketUnmined, bucketUnminedCredits, bucketUnminedInputs, bucketScripts,
                 bucketMultisig, bucketMultisigUsp]
           \<and> list_all (\<lambda>name. Bucket ns' name = Some [])
                [bucketBlocks, bucketTxRecords, bucketCredits, bucketDebits, bucketUnspent,
                 bucketUnmined, bucketUnminedCredits, bucketUnminedInputs, bucketScripts,
                 bucketMultisig, bucketMultisigUsp]
           \<and> length (ns_buckets ns') = 11"
  by (simp add: createStore_empty [OF assms] make_bytes_8)
    (simp add: Get_def fetchMinedBalance_def Bucket_def store_names len_of_def bytes_of_def
      PutUint32_def Uint64_def)

theorem createStore_fresh_witness:
  "ns_root empty_namespace = [] \<and> ns_buckets empty_namespace = []
   \<and> (\<exists>ns'. createStore 1500000000 empty_namespace = Inr ns'
         \<and> Get ns' rootVersion = Some [0, 0, 0, 2]
         \<and> fetchMinedBalance ns' = Inr 0
         \<and> Get ns' rootCreateDate = Some [0, 0, 0, 0, 0x59, 0x68, 0x2f, 0]
         \<and> length (ns_buckets ns') = 11)"
  using createStore_fresh [of empty_namespace 1500000000]
  by (auto simp add: empty_namespace_def PutUint64_def)

text \<open>
  C3, as the claim states it: twelve buckets would exist afterwards. createStore on the
  empty namespace returns no error and leaves eleven buckets, not twelve.
\<close>

theorem createStore_twelve_counterexample:
  "\<not> isl (createStore 0 empty_namespace)
   \<and> map fst (ns_buckets (projr (createStore 0 empty_namespace))) =
        [bucketBlocks, bucketTxRecords, bucketCredits, bucketDebits, bucketUnspent,
         bucketUnmined, bucketUnminedCredits, bucketUnminedInputs, bucketScripts,
         bucketMultisig, bucketMultisigUsp]
   \<and> length (ns_buckets (projr (createStore 0 empty_namespace))) \<noteq> 12"
  by (simp add: createStore_empty empty_namespace_def)

section \<open>Block records\<close>

text \<open>
  The key of a block record is the height, 4 bytes. Its value is the block hash [0:32],
  the Unix time [32:40], the vote bits [40:42], the number of transaction hashes
  [42:46], and the transaction hashes, 32 bytes each, from byte 46 on.
\<close>

definition Uint16 :: "bytes \<Rightarrow> 16 word" where
  "Uint16 b = ucast (b ! 1) OR push_bit 8 (ucast (b ! 0))"

record blockRecord =
  br_Block :: Block
  br_Time :: "64 word"
  br_VoteBits :: "16 word"
  br_transactions :: "bytes list"

text \<open>\<^verbatim>\<open>append(v[:len(v):len(v)], txHash[:]...)\<close> allocates: the new value is \<open>v\<close>
  followed by the hash.\<close>

definition appendRawBlockRecord :: "bytes \<Rightarrow> bytes \<Rightarrow> failure + bytes" where
  "appendRawBlockRecord v txHash =
     (if length v < 46 then Inl (storeError ErrData)
      else
        (let newv = v @ txHash;
             n = Uint32 (bytes_slice newv 42 46)
         in Inr (copy_at newv 42 46 (PutUint32 (n + 1)))))"

text \<open>The loop of removeRawBlockRecord, by the number of iterations left
  (\<open>oldNumHashes - i\<close>). Copying into \<^verbatim>\<open>newValue[newCursor:newCursor+32]\<close> panics
  when that runs beyond the new value, which happens when the hash to remove is not
  in the list.\<close>

fun removeRawBlockRecord_loop ::
  "bytes \<Rightarrow> bytes \<Rightarrow> nat \<Rightarrow> bytes \<Rightarrow> nat \<Rightarrow> nat \<Rightarrow> failure + bytes" where
  "removeRawBlockRecord_loop v txHash 0 newValue cursor newCursor = Inr newValue"
| "removeRawBlockRecord_loop v txHash (Suc n) newValue cursor newCursor =
     (if bytes_slice v cursor (cursor + 32) = txHash
      then removeRawBlockRecord_loop v txHash n newValue (cursor + 32) newCursor
      else if newCursor + 32 > length newValue then Inl Panic
      else removeRawBlockRecord_loop v txHash n
             (copy_at newValue newCursor (newCursor + 32) (bytes_slice v cursor (cursor + 32)))
             (cursor + 32) (newCursor + 32))"

text \<open>A value of 46 to 77 bytes passes the length check, and then
  \<^verbatim>\<open>newValue[0:46]\<close> is out of range for the new value of \<open>length - 32\<close> bytes.\<close>

definition removeRawBlockRecord :: "bytes \<Rightarrow> bytes \<Rightarrow> failure + bytes" where
  "removeRawBlockRecord v txHash =
     (if length v < 46 then Inl (storeError ErrData)
      else if length v - 32 < 46 then Inl Panic
      else
        (let newLength = length v - 32;
             oldNumHashes = (length v - 46) div 32;
             newValue = make_bytes newLength;
             newValue = copy_at newValue 0 46 (bytes_slice v 0 46)
         in case removeRawBlockRecord_loop v txHash oldNumHashes newValue 46 46 of
              Inl e \<Rightarrow> Inl e
            | Inr newValue \<Rightarrow>
                (let n = Uint32 (bytes_slice newValue 42 46)
                 in Inr (copy_at newValue 42 46 (PutUint32 (n - 1))))))"

text \<open>readRawBlockRecord fills the record it is given; Hash is a 32-byte array, all of
  which the copy overwrites, and the time is kept as its Unix seconds.\<close>

definition readRawBlockRecord :: "bytes \<Rightarrow> bytes \<Rightarrow> blockRecord \<Rightarrow> failure + blockRecord" where
  "readRawBlockRecord k v block =
     (if length k < 4 then Inl (storeError ErrData)
      else if length v < 46 then Inl (storeError ErrData)
      else
        (let numTransactions = unat (Uint32 (bytes_slice v 42 46));
             expectedLen = 46 + 32 * numTransactions
         in if length v < expectedLen then Inl (storeError ErrData)
            else Inr (block\<lparr>
              br_Block := \<lparr>blk_Hash = go_copy (make_bytes 32) v,
                           blk_Height = Uint32 k\<rparr>,
              br_Time := Uint64 (bytes_slice v 32 40),
              br_VoteBits := Uint16 (bytes_slice v 40 42),
              br_transactions :=
                map (\<lambda>i. go_copy (make_bytes 32) (drop (46 + 32 * i) v)) [0..<numTransactions]\<rparr>)))"

subsection \<open>Removing and appending a transaction hash\<close>

lemma removeRawBlockRecord_loop_spec:
  assumes "\<forall>x \<in> set todo. length x = 32"
    and "drop cursor v = concat todo @ rest"
    and "newCursor + 32 * length (filter (\<lambda>x. x \<noteq> h) todo) \<le> length newValue"
  shows "removeRawBlockRecord_loop v h (length todo) newValue cursor newCursor
           = Inr (take newCursor newValue @ concat (filter (\<lambda>x. x \<noteq> h) todo)
                  @ drop (newCursor + 32 * length (filter (\<lambda>x. x \<noteq> h) todo)) newValue)"
  using assms
proof (induction todo arbitrary: newValue cursor newCursor)
  case Nil
  then show ?case by simp
next
  case (Cons x xs)
  have lx: "length x = 32" using Cons.prems(1) by simp
  have sl: "bytes_slice v cursor (cursor + 32) = x"
    using Cons.prems(2) lx by (simp add: bytes_slice_def)
  have dr: "drop (cursor + 32) v = concat xs @ rest"
  proof -
    have "drop (cursor + 32) v = drop 32 (drop cursor v)" by (simp add: add.commute)
    then show ?thesis using Cons.prems(2) lx by simp
  qed
  show ?case
  proof (cases "x = h")
    case True
    then show ?thesis
      using Cons.IH [of "cursor + 32" newCursor newValue] Cons.prems dr sl by simp
  next
    case False
    define nv where "nv = copy_at newValue newCursor (newCursor + 32) x"
    have room: "newCursor + 32 \<le> length newValue"
      using Cons.prems(3) False by simp
    have nv: "nv = take newCursor newValue @ x @ drop (newCursor + 32) newValue"
      using room lx by (simp add: nv_def copy_at_exact)
    have lnv: "length nv = length newValue"
      using room by (simp add: nv_def)
    have ih: "removeRawBlockRecord_loop v h (length xs) nv (cursor + 32) (newCursor + 32)
           = Inr (take (newCursor + 32) nv @ concat (filter (\<lambda>x. x \<noteq> h) xs)
                  @ drop (newCursor + 32 + 32 * length (filter (\<lambda>x. x \<noteq> h) xs)) nv)"
      using Cons.IH [of "cursor + 32" "newCursor + 32" nv] Cons.prems dr False lnv by simp
    have t: "take (newCursor + 32) nv = take newCursor newValue @ x"
      using room lx by (simp add: nv)
    have d: "drop (newCursor + 32 + m) nv = drop (newCursor + 32 + m) newValue" for m
      using room lx by (simp add: nv ac_simps)
    show ?thesis
      using False sl room ih t d by (simp add: nv_def add.assoc)
  qed
qed


lemma chunks_of_concat:
  assumes "\<forall>x \<in> set hs. length x = 32"
  shows "map (\<lambda>i. go_copy (make_bytes 32) (drop (length pre + 32 * i) (pre @ concat hs)))
           [0..<length hs] = hs"
  using assms
proof (induction hs arbitrary: pre)
  case Nil
  then show ?case by simp
next
  case (Cons x xs)
  have lx: "length x = 32" using Cons.prems by simp
  have first: "go_copy (make_bytes 32) (drop (length pre) (pre @ concat (x # xs))) = x"
    using lx by (simp add: go_copy_def make_bytes_def)
  have rest: "map (\<lambda>i. go_copy (make_bytes 32)
                 (drop (length pre + 32 * Suc i) (pre @ concat (x # xs)))) [0..<length xs] = xs"
    using Cons.IH [of "pre @ x"] Cons.prems lx by (simp add: ac_simps)
  have "[0..<length (x # xs)] = 0 # map Suc [0..<length xs]"
    by (simp add: upt_conv_Cons map_Suc_upt del: upt_Suc)
  then show ?case
    using first rest by (simp add: comp_def del: upt_Suc)
qed

lemma concat_chunks:
  "length w = 32 * n \<Longrightarrow> concat (map (\<lambda>i. take 32 (drop (32 * i) w)) [0..<n]) = w"
proof (induction n arbitrary: w)
  case 0
  then show ?case by simp
next
  case (Suc n)
  have ih: "concat (map (\<lambda>i. take 32 (drop (32 * i) (take (32 * n) w))) [0..<n])
      = take (32 * n) w"
    using Suc.prems by (intro Suc.IH) simp
  have same: "take 32 (drop (32 * i) (take (32 * n) w)) = take 32 (drop (32 * i) w)"
    if "i < n" for i
  proof -
    have "32 * i + 32 \<le> 32 * n" using that by simp
    then show ?thesis by (simp add: drop_take min_def)
  qed
  have meq: "map (\<lambda>i. take 32 (drop (32 * i) w)) [0..<n]
      = map (\<lambda>i. take 32 (drop (32 * i) (take (32 * n) w))) [0..<n]"
    by (rule map_cong) (simp_all add: same)
  have "concat (map (\<lambda>i. take 32 (drop (32 * i) w)) [0..<n]) = take (32 * n) w"
    by (simp only: meq ih)
  moreover have "take 32 (drop (32 * n) w) = drop (32 * n) w"
    using Suc.prems by simp
  ultimately show ?case by simp
qed


lemma slice_take_eq:
  "take m a = take m b \<Longrightarrow> j \<le> m \<Longrightarrow> bytes_slice a i j = bytes_slice b i j"
proof -
  assume eq: "take m a = take m b" and j: "j \<le> m"
  have "bytes_slice x i j = bytes_slice (take m x) i j" for x :: bytes
    using j by (simp add: bytes_slice_def drop_take min_def)
  then show ?thesis using eq by metis
qed

lemma length_filter_count:
  "length (filter (\<lambda>x. x \<noteq> h) hs) + count_list hs h = length hs"
  by (induction hs) auto

lemma mset_filter_count:
  "mset hs = mset (filter (\<lambda>x. x \<noteq> h) hs) + replicate_mset (count_list hs h) h"
  by (induction hs) auto

lemma Uint32_slice_mid:
  "length pre = 42 \<Longrightarrow> length p = 4 \<Longrightarrow> Uint32 (bytes_slice (pre @ p @ rest) 42 46) = Uint32 p"
  by (simp add: bytes_slice_def)

lemma readRawBlockRecord_chunks:
  assumes "4 \<le> length k" and "length hdr = 46" and "\<forall>x \<in> set hs. length x = 32"
    and "unat (Uint32 (bytes_slice hdr 42 46)) = length hs"
  shows "readRawBlockRecord k (hdr @ concat hs) blk =
           Inr (blk\<lparr>br_Block := \<lparr>blk_Hash = take 32 hdr, blk_Height = Uint32 k\<rparr>,
                    br_Time := Uint64 (bytes_slice hdr 32 40),
                    br_VoteBits := Uint16 (bytes_slice hdr 40 42),
                    br_transactions := hs\<rparr>)"
proof -
  have len: "length (concat hs) = 32 * length hs"
    using assms(3) by (induction hs) auto
  have sl: "bytes_slice (hdr @ concat hs) i j = bytes_slice hdr i j" if "j \<le> 46" for i j
    using that assms(2) by (simp add: bytes_slice_def)
  have ch: "map (\<lambda>i. go_copy (make_bytes 32) (drop (32 * i) (concat hs))) [0..<length hs] = hs"
    using chunks_of_concat [OF assms(3), of "[]"] by simp
  have hash: "go_copy (make_bytes 32) (hdr @ concat hs) = take 32 hdr"
    using assms(2) by (simp add: go_copy_def make_bytes_def)
  show ?thesis
    using assms(1) assms(2) assms(4) len
    by (simp add: readRawBlockRecord_def Let_def sl ch hash)
qed

text \<open>
  C5. Let \<open>v\<close> be a block-record value of 46 + 32 n bytes whose n_tx field is n, and
  let the 32-byte hash \<open>h\<close> occur exactly once among its transaction hashes (as
  readRawBlockRecord reads them). Then removeRawBlockRecord followed by
  appendRawBlockRecord with \<open>h\<close> both return a value; the final value has the length
  of \<open>v\<close> and the same first 46 bytes (block hash, time, vote bits and n_tx); it reads
  back as the same record but for the transaction hashes, which are the original ones
  with \<open>h\<close> moved to the end, a permutation of the original list.
\<close>

theorem append_remove_block_record:
  assumes wf: "length v = 46 + 32 * unat (Uint32 (bytes_slice v 42 46))"
    and k: "4 \<le> length k"
    and rd: "readRawBlockRecord k v blk = Inr br"
    and h: "length h = 32"
    and once: "count_list (br_transactions br) h = 1"
  shows "\<exists>v1 v2 br2. removeRawBlockRecord v h = Inr v1 \<and> appendRawBlockRecord v1 h = Inr v2
           \<and> length v2 = length v \<and> take 46 v2 = take 46 v
           \<and> readRawBlockRecord k v2 blk = Inr br2
           \<and> br_transactions br2 = filter (\<lambda>x. x \<noteq> h) (br_transactions br) @ [h]
           \<and> mset (br_transactions br2) = mset (br_transactions br)
           \<and> br2 = br\<lparr>br_transactions := br_transactions br2\<rparr>"
proof -
  define N where "N = Uint32 (bytes_slice v 42 46)"
  define n where "n = unat N"
  define hdr where "hdr = take 46 v"
  define hs where "hs = map (\<lambda>i. take 32 (drop (32 * i) (drop 46 v))) [0..<n]"
  define fs where "fs = filter (\<lambda>x. x \<noteq> h) hs"
  have lv: "length v = 46 + 32 * n"
    using wf by (simp add: n_def N_def)
  have lhdr: "length hdr = 46"
    using lv by (simp add: hdr_def)
  have lhs: "length hs = n"
    by (simp add: hs_def)
  have chunk: "\<forall>x \<in> set hs. length x = 32"
    using lv by (auto simp add: hs_def)
  have cat: "concat hs = drop 46 v"
    unfolding hs_def using lv by (intro concat_chunks) simp
  have v: "v = hdr @ concat hs"
    by (simp add: hdr_def cat)
  have "bytes_slice hdr 42 46 = bytes_slice v 42 46"
    unfolding hdr_def by (rule slice_take_eq [of 46]) simp_all
  then have Nhdr: "Uint32 (bytes_slice hdr 42 46) = N"
    by (simp add: N_def)
  have br: "br = blk\<lparr>br_Block := \<lparr>blk_Hash = take 32 hdr, blk_Height = Uint32 k\<rparr>,
                    br_Time := Uint64 (bytes_slice hdr 32 40),
                    br_VoteBits := Uint16 (bytes_slice hdr 40 42),
                    br_transactions := hs\<rparr>"
    using readRawBlockRecord_chunks [OF k lhdr chunk, of blk] rd Nhdr lhs v
    by (simp add: n_def)
  have txs: "br_transactions br = hs"
    by (simp add: br)
  have cnt: "count_list hs h = 1"
    using once txs by simp
  have lfs: "length fs + 1 = n"
    using length_filter_count [of h hs] cnt lhs by (simp add: fs_def)
  have chunkf: "\<forall>x \<in> set fs. length x = 32"
    using chunk by (simp add: fs_def)
  have lcf: "length (concat fs) = 32 * length fs"
    using chunkf by (induction fs) auto
  \<comment> \<open>removeRawBlockRecord\<close>
  define nv0 where "nv0 = copy_at (make_bytes (length v - 32)) 0 46 (bytes_slice v 0 46)"
  have nv0: "nv0 = hdr @ replicate (32 * length fs) 0"
    using lv lfs by (simp add: nv0_def copy_at_exact make_bytes_def bytes_slice_def hdr_def)
  have loop: "removeRawBlockRecord_loop v h n nv0 46 46 = Inr (hdr @ concat fs)"
  proof -
    have "removeRawBlockRecord_loop v h (length hs) nv0 46 46
        = Inr (take 46 nv0 @ concat (filter (\<lambda>x. x \<noteq> h) hs)
               @ drop (46 + 32 * length (filter (\<lambda>x. x \<noteq> h) hs)) nv0)"
      using chunk cat lhdr by (intro removeRawBlockRecord_loop_spec [where rest = "[]"]) (simp_all add: nv0 fs_def)
    then show ?thesis
      using lhdr by (simp add: lhs nv0 fs_def)
  qed
  define v1 where "v1 = take 42 v @ PutUint32 (N - 1) @ concat fs"
  have hdr_split: "hdr = take 42 v @ bytes_slice v 42 46"
    using lv by (simp add: hdr_def bytes_slice_def take_add [symmetric] del: take_add)
  have rem: "removeRawBlockRecord v h = Inr v1"
  proof -
    have div: "(length v - 46) div 32 = n" using lv by simp
    have big: "\<not> length v < 46" "\<not> length v - 32 < 46" using lv lfs by simp_all
    have N1: "Uint32 (bytes_slice (hdr @ concat fs) 42 46) = N"
      using lhdr by (simp add: bytes_slice_def Nhdr [symmetric])
    have "copy_at (hdr @ concat fs) 42 46 (PutUint32 (N - 1)) = v1"
      using lhdr lv by (simp add: copy_at_exact v1_def hdr_def)
    then show ?thesis
      using big div loop N1
      by (simp add: removeRawBlockRecord_def Let_def nv0_def [symmetric])
  qed
  \<comment> \<open>appendRawBlockRecord\<close>
  define v2 where "v2 = hdr @ concat (fs @ [h])"
  have lv1: "length v1 = 46 + 32 * length fs"
    using lv by (simp add: v1_def lcf)
  have app: "appendRawBlockRecord v1 h = Inr v2"
  proof -
    have l42: "length (take 42 v) = 42" using lv by simp
    have n1: "Uint32 (bytes_slice (v1 @ h) 42 46) = N - 1"
      using Uint32_slice_mid [OF l42, of "PutUint32 (N - 1)" "concat fs @ h"]
      by (simp add: v1_def Uint32_PutUint32)
    have "copy_at (v1 @ h) 42 46 (PutUint32 (N - 1 + 1)) = take 42 v @ PutUint32 N @ concat fs @ h"
      using lv by (simp add: copy_at_exact v1_def)
    moreover have "PutUint32 N = bytes_slice v 42 46"
      unfolding N_def using lv by (intro PutUint32_Uint32) (simp add: bytes_slice_def)
    ultimately have "copy_at (v1 @ h) 42 46 (PutUint32 (N - 1 + 1)) = v2"
      using hdr_split by (simp add: v2_def)
    then show ?thesis
      using lv1 n1 by (simp add: appendRawBlockRecord_def Let_def)
  qed
  have lv2: "length v2 = length v"
    using lv lhdr lcf lfs h by (simp add: v2_def)
  have t46: "take 46 v2 = take 46 v"
    using lhdr by (simp add: v2_def hdr_def [symmetric])
  \<comment> \<open>reading the result back\<close>
  define br2 where "br2 = br\<lparr>br_transactions := fs @ [h]\<rparr>"
  have rd2: "readRawBlockRecord k v2 blk = Inr br2"
  proof -
    have "\<forall>x \<in> set (fs @ [h]). length x = 32"
      using chunkf h by simp
    moreover have "unat (Uint32 (bytes_slice hdr 42 46)) = length (fs @ [h])"
      using Nhdr lfs by (simp add: n_def)
    ultimately show ?thesis
      using readRawBlockRecord_chunks [OF k lhdr, of "fs @ [h]" blk]
      by (simp add: v2_def br2_def br)
  qed
  have txs2: "br_transactions br2 = filter (\<lambda>x. x \<noteq> h) (br_transactions br) @ [h]"
    by (simp add: br2_def txs fs_def)
  have ms: "mset (br_transactions br2) = mset (br_transactions br)"
    using mset_filter_count [of hs h] cnt by (simp add: br2_def txs fs_def)
  have same: "br2 = br\<lparr>br_transactions := br_transactions br2\<rparr>"
    by (simp add: br2_def)
  show ?thesis
    by (intro exI [of _ v1] exI [of _ v2] exI [of _ br2] conjI rem app lv2 t46 rd2 txs2 ms same)
qed


definition example_block_value :: bytes where
  "example_block_value = replicate 40 9 @ [0, 1] @ [0, 0, 0, 2] @ replicate 32 1 @ replicate 32 2"

definition example_blockRecord :: blockRecord where
  "example_blockRecord =
     \<lparr>br_Block = \<lparr>blk_Hash = replicate 32 0, blk_Height = 0\<rparr>, br_Time = 0, br_VoteBits = 0,
      br_transactions = []\<rparr>"

lemma example_block_read:
  "readRawBlockRecord [0, 0, 0, 100] example_block_value example_blockRecord =
     Inr \<lparr>br_Block = \<lparr>blk_Hash = replicate 32 9, blk_Height = 100\<rparr>,
          br_Time = 0x0909090909090909, br_VoteBits = 1,
          br_transactions = [replicate 32 1, replicate 32 2]\<rparr>"
proof -
  have "example_block_value = (replicate 40 9 @ [0, 1] @ [0, 0, 0, 2]) @ concat [replicate 32 1, replicate 32 2]"
    by (simp add: example_block_value_def)
  then show ?thesis
    using readRawBlockRecord_chunks [of "[0, 0, 0, 100]" "replicate 40 9 @ [0, 1] @ [0, 0, 0, 2]"
      "[replicate 32 1, replicate 32 2]" example_blockRecord]
    by (simp add: example_blockRecord_def bytes_slice_def Uint32_def Uint64_def Uint16_def)
qed

theorem append_remove_block_record_witness:
  "length example_block_value = 46 + 32 * unat (Uint32 (bytes_slice example_block_value 42 46))
   \<and> 4 \<le> length [0, 0, 0, 100 :: byte]
   \<and> readRawBlockRecord [0, 0, 0, 100] example_block_value example_blockRecord =
       Inr \<lparr>br_Block = \<lparr>blk_Hash = replicate 32 9, blk_Height = 100\<rparr>,
          br_Time = 0x0909090909090909, br_VoteBits = 1,
          br_transactions = [replicate 32 1, replicate 32 2]\<rparr>
   \<and> length (replicate 32 (1 :: byte)) = 32
   \<and> count_list [replicate 32 1, replicate 32 (2 :: byte)] (replicate 32 1) = 1
   \<and> (\<exists>v1 v2 br2. removeRawBlockRecord example_block_value (replicate 32 1) = Inr v1
         \<and> appendRawBlockRecord v1 (replicate 32 1) = Inr v2
         \<and> length v2 = length example_block_value
         \<and> take 46 v2 = take 46 example_block_value
         \<and> readRawBlockRecord [0, 0, 0, 100] v2 example_blockRecord = Inr br2
         \<and> br_transactions br2 = [replicate 32 2, replicate 32 1])"
proof -
  have wf: "length example_block_value
      = 46 + 32 * unat (Uint32 (bytes_slice example_block_value 42 46))"
    by (simp add: example_block_value_def bytes_slice_def Uint32_def)
  have ne: "replicate 32 (2 :: byte) \<noteq> replicate 32 1"
    by (simp add: replicate_eq_replicate)
  have once: "count_list (br_transactions \<lparr>br_Block = \<lparr>blk_Hash = replicate 32 9, blk_Height = 100\<rparr>,
          br_Time = 0x0909090909090909, br_VoteBits = 1,
          br_transactions = [replicate 32 1, replicate 32 2]\<rparr>) (replicate 32 1) = 1"
    using ne by simp
  show ?thesis
    using append_remove_block_record [OF wf _ example_block_read _ once] wf example_block_read ne
    by auto
qed

section \<open>Looking block records up by height\<close>

definition keyBlockRecord :: "32 word \<Rightarrow> bytes" where
  "keyBlockRecord height = go_copy (make_bytes 4) (PutUint32 height)"

definition existsBlockRecord :: "Namespace \<Rightarrow> 32 word \<Rightarrow> failure + (bytes \<times> bytes option)" where
  "existsBlockRecord ns height =
     (let k = keyBlockRecord height
      in case BucketGet ns bucketBlocks k of Inl e \<Rightarrow> Inl e | Inr v \<Rightarrow> Inr (k, v))"

text \<open>The loop of fetchChainHeight, \<^verbatim>\<open>for i := startHeight; ; i++\<close>, has no bound: it
  ends at the first height with no block record. The height is an int32 and \<open>i++\<close>
  wraps around. A run that does not end is the value \<open>None\<close>.\<close>

partial_function (option) fetchChainHeight_loop ::
  "Namespace \<Rightarrow> 32 word \<Rightarrow> 32 word \<Rightarrow> (failure + 32 word) option" where
  "fetchChainHeight_loop ns i lastValidHeight =
     (case existsBlockRecord ns i of
        Inl e \<Rightarrow> Some (Inl e)
      | Inr (k, v) \<Rightarrow>
          if v = None then Some (Inr lastValidHeight)
          else fetchChainHeight_loop ns (i + 1) i)"

definition fetchChainHeight :: "Namespace \<Rightarrow> 32 word \<Rightarrow> (failure + 32 word) option" where
  "fetchChainHeight ns startHeight =
     (case fetchChainHeight_loop ns startHeight 0 of
        None \<Rightarrow> None
      | Some (Inl e) \<Rightarrow> Some (Inl e)
      | Some (Inr lastValidHeight) \<Rightarrow>
          if lastValidHeight = 0 then Some (Inl Errorf) else Some (Inr lastValidHeight))"

subsection \<open>The height of the chain\<close>

lemma existsBlockRecord_eq:
  "Bucket ns bucketBlocks = Some b \<Longrightarrow>
     existsBlockRecord ns h = Inr (keyBlockRecord h, map_of b (keyBlockRecord h))"
  by (simp add: existsBlockRecord_def BucketGet_def Let_def)

lemma fetchChainHeight_loop_run:
  assumes "Bucket ns bucketBlocks = Some b"
    and "\<forall>j<n. map_of b (keyBlockRecord (i + of_nat j)) \<noteq> None"
    and "map_of b (keyBlockRecord (i + of_nat n)) = None"
  shows "fetchChainHeight_loop ns i lst = Some (Inr (if n = 0 then lst else i + of_nat n - 1))"
  using assms(2,3)
proof (induction n arbitrary: i lst)
  case 0
  then show ?case
    by (subst fetchChainHeight_loop.simps) (simp add: existsBlockRecord_eq [OF assms(1)])
next
  case (Suc n)
  have here: "map_of b (keyBlockRecord i) \<noteq> None"
    using Suc.prems(1) [rule_format, of 0] by simp
  have later: "\<forall>j<n. map_of b (keyBlockRecord (i + 1 + of_nat j)) \<noteq> None"
  proof (intro allI impI)
    fix j assume "j < n"
    then show "map_of b (keyBlockRecord (i + 1 + of_nat j)) \<noteq> None"
      using Suc.prems(1) [rule_format, of "Suc j"] by (simp add: ac_simps)
  qed
  have miss: "map_of b (keyBlockRecord (i + 1 + of_nat n)) = None"
    using Suc.prems(2) by (simp add: ac_simps)
  have "fetchChainHeight_loop ns (i + 1) i = Some (Inr (if n = 0 then i else i + 1 + of_nat n - 1))"
    by (rule Suc.IH [OF later miss])
  then have "fetchChainHeight_loop ns (i + 1) i = Some (Inr (i + of_nat (Suc n) - 1))"
    by (simp add: ac_simps)
  moreover obtain v where "map_of b (keyBlockRecord i) = Some v"
    using here by blast
  ultimately show ?case
    by (subst fetchChainHeight_loop.simps) (simp add: existsBlockRecord_eq [OF assms(1)])
qed

text \<open>
  C7, as the code has it. Let the blocks bucket hold a record at each of the heights
  from, from + 1, ..., from + n - 1 and none at from + n (heights are int32 and wrap
  around). Then fetchChainHeight returns, and it returns the last height found,
  from + n - 1, unless nothing was found (n = 0) or the last height found is 0: in both
  cases lastValidHeight is 0 and the result is the error.
\<close>

theorem fetchChainHeight_first_miss:
  assumes "Bucket ns bucketBlocks = Some b"
    and "\<forall>j<n. map_of b (keyBlockRecord (from + of_nat j)) \<noteq> None"
    and "map_of b (keyBlockRecord (from + of_nat n)) = None"
  shows "fetchChainHeight ns from =
           Some (if n = 0 \<or> from + of_nat n - 1 = 0 then Inl Errorf
                 else Inr (from + of_nat n - 1))"
  using fetchChainHeight_loop_run [OF assms, of 0]
  by (simp add: fetchChainHeight_def)

text \<open>With a record at every one of the 2^32 heights the loop does not end.\<close>

lemma fetchChainHeight_loop_all_present:
  assumes "fetchChainHeight_loop ns i lst = Some y"
  shows "Bucket ns bucketBlocks = Some b \<longrightarrow> (\<forall>h. map_of b (keyBlockRecord h) \<noteq> None) \<longrightarrow> False"
proof (rule fetchChainHeight_loop.raw_induct
    [where P = "\<lambda>ns i lst y. Bucket ns bucketBlocks = Some b
                  \<longrightarrow> (\<forall>h. map_of b (keyBlockRecord h) \<noteq> None) \<longrightarrow> False", OF _ assms])
  fix f ns i lst y
  assume IH: "\<And>ns i lst y. f ns i lst = Some y \<Longrightarrow>
      Bucket ns bucketBlocks = Some b \<longrightarrow> (\<forall>h. map_of b (keyBlockRecord h) \<noteq> None) \<longrightarrow> False"
    and step: "(case existsBlockRecord ns i of
        Inl e \<Rightarrow> Some (Inl e)
      | Inr (k, v) \<Rightarrow> if v = None then Some (Inr lst) else f ns (i + 1) i) = Some y"
  show "Bucket ns bucketBlocks = Some b \<longrightarrow> (\<forall>h. map_of b (keyBlockRecord h) \<noteq> None) \<longrightarrow> False"
  proof (intro impI)
    assume b: "Bucket ns bucketBlocks = Some b" and all: "\<forall>h. map_of b (keyBlockRecord h) \<noteq> None"
    obtain v where "map_of b (keyBlockRecord i) = Some v"
      using all by blast
    then have "f ns (i + 1) i = Some y"
      using step by (simp add: existsBlockRecord_eq [OF b])
    then show False
      using IH b all by blast
  qed
qed

lemma fetchChainHeight_never_returns:
  assumes "Bucket ns bucketBlocks = Some b"
    and "\<forall>h. map_of b (keyBlockRecord h) \<noteq> None"
  shows "fetchChainHeight ns from = None"
proof -
  have "fetchChainHeight_loop ns from 0 = None"
    using fetchChainHeight_loop_all_present [of ns "from" 0 _ b] assms
    by (cases "fetchChainHeight_loop ns from 0") auto
  then show ?thesis by (simp add: fetchChainHeight_def)
qed

definition example_chain :: Namespace where
  "example_chain =
     \<lparr>ns_root = [],
      ns_buckets = [(bucketBlocks, [([0, 0, 0, 100], replicate 46 0), ([0, 0, 0, 101], replicate 46 0)])],
      ns_writable = False\<rparr>"

definition genesis_only :: Namespace where
  "genesis_only =
     \<lparr>ns_root = [], ns_buckets = [(bucketBlocks, [([0, 0, 0, 0], replicate 46 0)])],
      ns_writable = False\<rparr>"

lemma keyBlockRecord_numeral:
  "keyBlockRecord 0 = [0, 0, 0, 0]" "keyBlockRecord 1 = [0, 0, 0, 1]" "keyBlockRecord 100 = [0, 0, 0, 100]"
  "keyBlockRecord 101 = [0, 0, 0, 101]" "keyBlockRecord 102 = [0, 0, 0, 102]"
  by (simp_all add: keyBlockRecord_def go_copy_def make_bytes_def PutUint32_def)

theorem fetchChainHeight_first_miss_witness:
  "Bucket example_chain bucketBlocks
     = Some [([0, 0, 0, 100], replicate 46 0), ([0, 0, 0, 101], replicate 46 0)]
   \<and> map_of [([0, 0, 0, 100], replicate 46 0), ([0, 0, 0, 101], replicate 46 (0 :: byte))]
        (keyBlockRecord 100) \<noteq> None
   \<and> map_of [([0, 0, 0, 100], replicate 46 0), ([0, 0, 0, 101], replicate 46 (0 :: byte))]
        (keyBlockRecord 101) \<noteq> None
   \<and> map_of [([0, 0, 0, 100], replicate 46 0), ([0, 0, 0, 101], replicate 46 (0 :: byte))]
        (keyBlockRecord 102) = None
   \<and> fetchChainHeight example_chain 100 = Some (Inr 101)"
proof -
  have b: "Bucket example_chain bucketBlocks
     = Some [([0, 0, 0, 100], replicate 46 0), ([0, 0, 0, 101], replicate 46 0)]"
    by (simp add: example_chain_def Bucket_def)
  have hit: "\<forall>j<2. map_of [([0, 0, 0, 100], replicate 46 0), ([0, 0, 0, 101], replicate 46 (0 :: byte))]
        (keyBlockRecord (100 + of_nat j)) \<noteq> None"
    by (simp add: less_Suc_eq eval_nat_numeral keyBlockRecord_numeral)
  have miss: "map_of [([0, 0, 0, 100], replicate 46 0), ([0, 0, 0, 101], replicate 46 (0 :: byte))]
        (keyBlockRecord (100 + of_nat 2)) = None"
    by (simp add: keyBlockRecord_numeral)
  show ?thesis
    using fetchChainHeight_first_miss [OF b hit miss] b
    by (simp add: keyBlockRecord_numeral)
qed

text \<open>
  C7, as the claim states it: an error would be returned only when no block record
  was found at all. In a store whose only block record is at height 0,
  fetchChainHeight from height 0 finds that record, misses at height 1, and returns the
  error.
\<close>

theorem fetchChainHeight_genesis_counterexample:
  "BucketGet genesis_only bucketBlocks (keyBlockRecord 0) = Inr (Some (replicate 46 0))
   \<and> BucketGet genesis_only bucketBlocks (keyBlockRecord 1) = Inr None
   \<and> fetchChainHeight genesis_only 0 = Some (Inl Errorf)"
proof -
  have b: "Bucket genesis_only bucketBlocks = Some [([0, 0, 0, 0], replicate 46 0)]"
    by (simp add: genesis_only_def Bucket_def)
  have hit: "\<forall>j<1. map_of [([0, 0, 0, 0], replicate 46 (0 :: byte))] (keyBlockRecord (0 + of_nat j)) \<noteq> None"
    by (simp add: keyBlockRecord_numeral)
  have miss: "map_of [([0, 0, 0, 0], replicate 46 (0 :: byte))] (keyBlockRecord (0 + of_nat 1)) = None"
    by (simp add: keyBlockRecord_numeral)
  show ?thesis
    using fetchChainHeight_loop_run [OF b hit miss, of 0] b
    by (simp add: fetchChainHeight_def keyBlockRecord_numeral BucketGet_def)
qed

section \<open>The latest record of a transaction\<close>

text \<open>
  The key of a transaction record is 68 bytes: tx hash [0:32], block height [32:36],
  block hash [36:68].
\<close>

text \<open>
  Modelled from the spec: a cursor over a bucket (section 6) is the pairs from its
  position to the end of the bucket: \<^verbatim>\<open>Seek(k)\<close> positions it at the first pair whose key is not below \<open>k\<close>,
  \<^verbatim>\<open>Next()\<close> drops the pair at the front, and at the end the current key is nil.
\<close>

definition cursor_Seek :: "kvs \<Rightarrow> bytes \<Rightarrow> kvs" where
  "cursor_Seek b k = dropWhile (\<lambda>(ck, cv). ck < k) b"

text \<open>The loop of latestTxRecord. The prefix is a tx hash, a 32-byte array, so a nil
  key never has it and the loop stops at the end of the bucket. \<open>None\<close> is the pair
  (nil, nil).\<close>

fun latestTxRecord_loop :: "bytes \<Rightarrow> kvs \<Rightarrow> (bytes \<times> bytes) option \<Rightarrow> (bytes \<times> bytes) option" where
  "latestTxRecord_loop prefix [] lastKV = lastKV"
| "latestTxRecord_loop prefix ((ck, cv) # c) lastKV =
     (if HasPrefix ck prefix then latestTxRecord_loop prefix c (Some (ck, cv)) else lastKV)"

definition latestTxRecord :: "Namespace \<Rightarrow> bytes \<Rightarrow> failure + (bytes \<times> bytes) option" where
  "latestTxRecord ns txHash =
     (let prefix = txHash
      in case Bucket ns bucketTxRecords of
           None \<Rightarrow> Inl Panic
         | Some b \<Rightarrow> Inr (latestTxRecord_loop prefix (cursor_Seek b prefix) None))"

definition keyTxRecord :: "bytes \<Rightarrow> Block \<Rightarrow> bytes" where
  "keyTxRecord txHash block =
     (let k = make_bytes 68;
          k = go_copy k txHash;
          k = copy_at k 32 36 (PutUint32 (blk_Height block))
      in copy_at k 36 68 (blk_Hash block))"

text \<open>Modelled from the spec: the engine keeps the keys of a bucket in strictly
  ascending order.\<close>

definition ascending :: "kvs \<Rightarrow> bool" where
  "ascending b = sorted_wrt (<) (map fst b)"

subsection \<open>Big-endian fields and the order of keys\<close>

lemma unat_byte_bound: "unat (a :: byte) < 256"
  using unsigned_less [of a, where 'a = nat] by simp

lemma unat_byte_shift:
  assumes "n \<le> 24"
  shows "unat (push_bit n (ucast (a :: byte)) :: 32 word) = unat a * 2 ^ n"
proof -
  have a: "unat a < 2 ^ 8" using unat_byte_bound [of a] by simp
  have "unat a * 2 ^ n < 2 ^ 8 * 2 ^ n" using a by simp
  also have "\<dots> = 2 ^ (8 + n)" by (simp add: power_add)
  also have "\<dots> \<le> (2 :: nat) ^ 32" using assms by (intro power_increasing) simp_all
  finally have lt: "unat a * 2 ^ n < 2 ^ 32" .
  have up: "unat (ucast a :: 32 word) = unat a"
    using a by (simp add: unsigned_ucast_eq take_bit_nat_eq_self)
  have "unat (push_bit n (ucast a) :: 32 word) = take_bit 32 (push_bit n (unat a))"
    by (simp add: unsigned_push_bit_eq up)
  also have "\<dots> = push_bit n (unat a)"
    using lt by (simp add: take_bit_nat_eq_self push_bit_eq_mult)
  finally show ?thesis by (simp add: push_bit_eq_mult)
qed

lemma unat_Uint32:
  "unat (Uint32 [a, b, c, d]) = unat a * 2 ^ 24 + unat b * 2 ^ 16 + unat c * 2 ^ 8 + unat d"
proof -
  define A :: "32 word" where "A = push_bit 24 (ucast a)"
  define B :: "32 word" where "B = push_bit 16 (ucast b)"
  define C :: "32 word" where "C = push_bit 8 (ucast c)"
  define D :: "32 word" where "D = ucast d"
  have bits: "bit A n \<Longrightarrow> 24 \<le> n" "bit B n \<Longrightarrow> 16 \<le> n \<and> n < 24"
    "bit C n \<Longrightarrow> 8 \<le> n \<and> n < 16" "bit D n \<Longrightarrow> n < 8" for n
    by (auto simp add: A_def B_def C_def D_def bit_simps dest: byte_bit_range)
  have "B OR A = B + A"
    by (rule disjunctive_add [symmetric]) (use bits in fastforce)
  moreover have "C OR (B OR A) = C + (B OR A)"
    by (rule disjunctive_add [symmetric]) (use bits in \<open>fastforce simp add: bit_simps\<close>)
  moreover have "D OR (C OR (B OR A)) = D + (C OR (B OR A))"
    by (rule disjunctive_add [symmetric]) (use bits in \<open>fastforce simp add: bit_simps\<close>)
  moreover have "Uint32 [a, b, c, d] = D OR (C OR (B OR A))"
    by (simp add: Uint32_def A_def B_def C_def D_def)
  ultimately have sum: "Uint32 [a, b, c, d] = D + C + B + A"
    by (simp add: ac_simps)
  have u: "unat A = unat a * 2 ^ 24" "unat B = unat b * 2 ^ 16" "unat C = unat c * 2 ^ 8"
    "unat D = unat d"
    using unat_byte_shift [of 24 a] unat_byte_shift [of 16 b] unat_byte_shift [of 8 c]
      unat_byte_shift [of 0 d]
    by (simp_all add: A_def B_def C_def D_def)
  have bnd: "unat a < 256" "unat b < 256" "unat c < 256" "unat d < 256"
    by (rule unat_byte_bound)+
  have "unat (D + C + B + A) = unat D + unat C + unat B + unat A"
    using bnd by (simp add: unat_word_ariths u)
  then show ?thesis
    by (simp add: sum u)
qed

lemma Uint32_lex_mono:
  assumes "[a', b', c', d'] @ r' \<le> [a, b, c, d] @ r"
  shows "Uint32 [a', b', c', d'] \<le> Uint32 [a, b, c, d]"
proof -
  have bnd: "unat a < 256" "unat b < 256" "unat c < 256" "unat d < 256"
    "unat a' < 256" "unat b' < 256" "unat c' < 256" "unat d' < 256"
    by (rule unat_byte_bound)+
  have "a' < a \<or> a' = a \<and> (b' < b \<or> b' = b \<and> (c' < c \<or> c' = c \<and> d' \<le> d))"
    using assms by auto
  then have "unat a' < unat a \<or> unat a' = unat a \<and> (unat b' < unat b \<or> unat b' = unat b
      \<and> (unat c' < unat c \<or> unat c' = unat c \<and> unat d' \<le> unat d))"
    by (auto simp add: word_less_nat_alt word_le_nat_alt)
  then have "unat a' * 2 ^ 24 + unat b' * 2 ^ 16 + unat c' * 2 ^ 8 + unat d'
      \<le> unat a * 2 ^ 24 + unat b * 2 ^ 16 + unat c * 2 ^ 8 + unat d"
    using bnd by auto
  then show ?thesis
    by (simp add: word_le_nat_alt unat_Uint32)
qed


subsection \<open>Keys with a common prefix\<close>

lemma HasPrefix_append: "HasPrefix k h \<longleftrightarrow> (\<exists>t. k = h @ t)"
  by (auto simp add: HasPrefix_def) (metis append_take_drop_id)

lemma prefix_le: "HasPrefix k h \<Longrightarrow> h \<le> k"
proof -
  assume "HasPrefix k h"
  then obtain t where k: "k = h @ t" by (auto simp add: HasPrefix_append)
  show ?thesis
  proof (cases t)
    case Nil
    then show ?thesis by (simp add: k)
  next
    case (Cons a u)
    then have "(h, h @ t) \<in> lexord {(u, v). u < v}"
      by (intro lexord_append_rightI) blast
    then show ?thesis by (simp add: k list_le_def list_less_def)
  qed
qed

lemma append_less_cancel: "u @ x < u @ y \<longleftrightarrow> x < (y :: bytes)"
  by (induction u) simp_all

lemma append_le_cancel: "u @ x \<le> u @ y \<longleftrightarrow> x \<le> (y :: bytes)"
  by (induction u) simp_all

lemma beyond_prefix:
  assumes "h \<le> k" and "\<not> HasPrefix k h" and "HasPrefix k' h"
  shows "k' < k"
proof -
  obtain t where k': "k' = h @ t" using assms(3) by (auto simp add: HasPrefix_append)
  have "h \<noteq> k" using assms(2) by (auto simp add: HasPrefix_def)
  then have "(h, k) \<in> lexord {(u, v). u < v}"
    using assms(1) by (simp add: list_le_def list_less_def)
  then consider (pre) a v where "k = h @ a # v"
    | (diff) u a b v w where "a < b" "h = u @ a # v" "k = u @ b # w"
    by (auto simp add: lexord_def)
  then show ?thesis
  proof cases
    case pre
    then show ?thesis using assms(2) by (simp add: HasPrefix_append)
  next
    case diff
    then have "u @ a # (v @ t) < u @ b # w"
      by (simp only: append_less_cancel Cons_less_Cons) simp
    then show ?thesis by (simp add: k' diff)
  qed
qed

lemma latestTxRecord_loop_takeWhile:
  "latestTxRecord_loop h s lst =
     (if takeWhile (\<lambda>p. HasPrefix (fst p) h) s = [] then lst
      else Some (last (takeWhile (\<lambda>p. HasPrefix (fst p) h) s)))"
  by (induction s arbitrary: lst) auto

lemma filter_is_takeWhile:
  assumes "ascending s" and "\<forall>p \<in> set s. h \<le> fst p"
  shows "filter (\<lambda>p. HasPrefix (fst p) h) s = takeWhile (\<lambda>p. HasPrefix (fst p) h) s"
  using assms
proof (induction s)
  case Nil
  then show ?case by simp
next
  case (Cons p s)
  have asc: "ascending s" and ge: "\<forall>q \<in> set s. h \<le> fst q"
    using Cons.prems by (simp_all add: ascending_def)
  show ?case
  proof (cases "HasPrefix (fst p) h")
    case True
    then show ?thesis using Cons.IH [OF asc ge] by simp
  next
    case False
    have "\<not> HasPrefix (fst q) h" if "q \<in> set s" for q
    proof
      assume "HasPrefix (fst q) h"
      then have "fst q < fst p"
        using beyond_prefix [of h "fst p" "fst q"] Cons.prems(2) False by simp
      moreover have "fst p < fst q"
        using Cons.prems(1) that by (auto simp add: ascending_def)
      ultimately show False by simp
    qed
    then have "filter (\<lambda>p. HasPrefix (fst p) h) s = []"
      by (simp add: filter_empty_conv)
    then show ?thesis using False by simp
  qed
qed

lemma ascending_cursor_Seek: "ascending b \<Longrightarrow> ascending (cursor_Seek b h)"
  by (induction b) (auto simp add: cursor_Seek_def ascending_def)

lemma cursor_Seek_ge:
  "ascending b \<Longrightarrow> \<forall>p \<in> set (cursor_Seek b h). h \<le> fst p"
proof (induction b)
  case Nil
  then show ?case by (simp add: cursor_Seek_def)
next
  case (Cons p b)
  have asc: "ascending b" using Cons.prems by (simp add: ascending_def)
  have "h \<le> fst q" if "\<not> fst p < h" "q \<in> set b" for q
  proof -
    have "fst p < fst q" using Cons.prems that(2) by (auto simp add: ascending_def)
    then show ?thesis using that(1) by simp
  qed
  then show ?case
    using Cons.IH [OF asc] by (auto simp add: cursor_Seek_def split: prod.splits)
qed

lemma cursor_Seek_filter:
  "filter (\<lambda>p. HasPrefix (fst p) h) (cursor_Seek b h) = filter (\<lambda>p. HasPrefix (fst p) h) b"
proof (induction b)
  case Nil
  then show ?case by (simp add: cursor_Seek_def)
next
  case (Cons p b)
  have "\<not> HasPrefix (fst p) h" if "fst p < h"
    using prefix_le [of "fst p" h] that by auto
  then show ?case
    using Cons.IH by (auto simp add: cursor_Seek_def split: prod.splits)
qed

lemma ascending_last_greatest:
  "ascending s \<Longrightarrow> p \<in> set s \<Longrightarrow> fst p \<le> fst (last s)"
proof (induction s)
  case Nil
  then show ?case by simp
next
  case (Cons q s)
  show ?case
  proof (cases "s = []")
    case True
    then show ?thesis using Cons.prems by simp
  next
    case False
    have "fst q < fst (last s)"
      using Cons.prems(1) False by (auto simp add: ascending_def)
    moreover have "ascending s" using Cons.prems(1) by (simp add: ascending_def)
    ultimately show ?thesis
      using Cons.IH Cons.prems(2) False by auto
  qed
qed

lemma ascending_filter: "ascending s \<Longrightarrow> ascending (filter P s)"
  by (induction s) (auto simp add: ascending_def)

lemma latestTxRecord_eq:
  assumes "Bucket ns bucketTxRecords = Some b" and "ascending b"
  shows "latestTxRecord ns h =
           Inr (if filter (\<lambda>p. HasPrefix (fst p) h) b = [] then None
                else Some (last (filter (\<lambda>p. HasPrefix (fst p) h) b)))"
  using filter_is_takeWhile [OF ascending_cursor_Seek [OF assms(2)] cursor_Seek_ge [OF assms(2)], of h]
    cursor_Seek_filter [of h b]
  by (simp add: latestTxRecord_def Let_def assms(1) latestTxRecord_loop_takeWhile)


lemma height_order:
  assumes "HasPrefix k h" and "HasPrefix k' h" and "length h = 32" and "length k = 68"
    and "length k' = 68" and "k' \<le> k"
  shows "Uint32 (bytes_slice k' 32 36) \<le> Uint32 (bytes_slice k 32 36)"
proof -
  obtain t where k: "k = h @ t" using assms(1) by (auto simp add: HasPrefix_append)
  obtain t' where k': "k' = h @ t'" using assms(2) by (auto simp add: HasPrefix_append)
  have lt: "length t = 36" "length t' = 36"
    using assms(3,4,5) by (simp_all add: k k')
  obtain a b c d r where t: "t = [a, b, c, d] @ r"
    using lt(1) by (auto simp add: length_Suc_conv eval_nat_numeral)
  obtain a' b' c' d' r' where t': "t' = [a', b', c', d'] @ r'"
    using lt(2) by (auto simp add: length_Suc_conv eval_nat_numeral)
  have "t' \<le> t"
    using assms(6) by (simp only: k k' append_le_cancel)
  then have "Uint32 [a', b', c', d'] \<le> Uint32 [a, b, c, d]"
    unfolding t t' by (rule Uint32_lex_mono)
  moreover have "Uint32 (bytes_slice k 32 36) = Uint32 [a, b, c, d]"
    using assms(3) by (simp add: k t bytes_slice_def Uint32_def)
  moreover have "Uint32 (bytes_slice k' 32 36) = Uint32 [a', b', c', d']"
    using assms(3) by (simp add: k' t' bytes_slice_def Uint32_def)
  ultimately show ?thesis by simp
qed

text \<open>
  C8. On a bucket of transaction records with its keys in ascending order and a
  32-byte tx hash \<open>h\<close>, latestTxRecord returns (nil, nil) exactly when no key has
  the prefix \<open>h\<close>; otherwise it returns a pair of the bucket whose key has the prefix
  and is lexicographically the greatest such key, and among 68-byte keys with the
  prefix its big-endian height field (read as uint32) is the greatest as well.
\<close>

theorem latestTxRecord_greatest:
  assumes "Bucket ns bucketTxRecords = Some b" and "ascending b" and "length h = 32"
  shows "\<exists>r. latestTxRecord ns h = Inr r
           \<and> (r = None \<longleftrightarrow> (\<forall>p \<in> set b. \<not> HasPrefix (fst p) h))
           \<and> (\<forall>k v. r = Some (k, v) \<longrightarrow>
                 (k, v) \<in> set b \<and> HasPrefix k h
                 \<and> (\<forall>p \<in> set b. HasPrefix (fst p) h \<longrightarrow>
                       fst p \<le> k
                       \<and> (length k = 68 \<and> length (fst p) = 68 \<longrightarrow>
                            Uint32 (bytes_slice (fst p) 32 36) \<le> Uint32 (bytes_slice k 32 36))))"
proof -
  define fs where "fs = filter (\<lambda>p. HasPrefix (fst p) h) b"
  define r where "r = (if fs = [] then None else Some (last fs))"
  have res: "latestTxRecord ns h = Inr r"
    using latestTxRecord_eq [OF assms(1,2), of h] by (simp add: r_def fs_def)
  have none: "r = None \<longleftrightarrow> (\<forall>p \<in> set b. \<not> HasPrefix (fst p) h)"
    by (auto simp add: r_def fs_def filter_empty_conv)
  have some: "(k, v) \<in> set b \<and> HasPrefix k h
      \<and> (\<forall>p \<in> set b. HasPrefix (fst p) h \<longrightarrow>
            fst p \<le> k
            \<and> (length k = 68 \<and> length (fst p) = 68 \<longrightarrow>
                 Uint32 (bytes_slice (fst p) 32 36) \<le> Uint32 (bytes_slice k 32 36)))"
    if "r = Some (k, v)" for k v
  proof -
    have ne: "fs \<noteq> []" and lst: "last fs = (k, v)"
      using that by (auto simp add: r_def split: if_splits)
    have "(k, v) \<in> set fs"
      using ne lst last_in_set by metis
    then have mem: "(k, v) \<in> set b" and pre: "HasPrefix k h"
      by (simp_all add: fs_def)
    have asc: "ascending fs"
      unfolding fs_def using assms(2) by (rule ascending_filter)
    have "fst p \<le> k \<and> (length k = 68 \<and> length (fst p) = 68 \<longrightarrow>
             Uint32 (bytes_slice (fst p) 32 36) \<le> Uint32 (bytes_slice k 32 36))"
      if p: "p \<in> set b" "HasPrefix (fst p) h" for p
    proof -
      have "p \<in> set fs" using p by (simp add: fs_def)
      then have le: "fst p \<le> k"
        using ascending_last_greatest [OF asc, of p] lst by simp
      then show ?thesis
        using height_order [OF pre p(2) assms(3)] by simp
    qed
    then show ?thesis using mem pre by blast
  qed
  show ?thesis
    using res none some by blast
qed


lemma keyTxRecord_eq:
  "length txHash = 32 \<Longrightarrow> length (blk_Hash block) = 32 \<Longrightarrow>
     keyTxRecord txHash block = txHash @ PutUint32 (blk_Height block) @ blk_Hash block"
  by (simp add: keyTxRecord_def Let_def copy_at_exact go_copy_def make_bytes_def)

definition example_tx_records :: kvs where
  "example_tx_records =
     [(keyTxRecord (replicate 32 5) \<lparr>blk_Hash = replicate 32 2, blk_Height = 100\<rparr>, replicate 8 0),
      (keyTxRecord (replicate 32 5) \<lparr>blk_Hash = replicate 32 1, blk_Height = 120\<rparr>, replicate 8 1),
      (keyTxRecord (replicate 32 6) \<lparr>blk_Hash = replicate 32 3, blk_Height = 7\<rparr>, replicate 8 2)]"

definition example_tx_store :: Namespace where
  "example_tx_store =
     \<lparr>ns_root = [], ns_buckets = [(bucketTxRecords, example_tx_records)], ns_writable = False\<rparr>"

lemma example_tx_records_eq:
  "example_tx_records =
     [(replicate 32 5 @ [0, 0, 0, 100] @ replicate 32 2, replicate 8 0),
      (replicate 32 5 @ [0, 0, 0, 120] @ replicate 32 1, replicate 8 1),
      (replicate 32 6 @ [0, 0, 0, 7] @ replicate 32 3, replicate 8 2)]"
  by (simp add: example_tx_records_def keyTxRecord_eq PutUint32_def)

lemma replicate_less:
  "a < b \<Longrightarrow> 0 < n \<Longrightarrow> replicate n a @ x < replicate n (b :: byte) @ y"
  by (cases n) simp_all

lemma replicate_32_less: "replicate 32 (5 :: byte) @ x < replicate 32 6 @ y"
  by (rule replicate_less) simp_all

lemma example_tx_records_ascending: "ascending example_tx_records"
  by (simp add: example_tx_records_eq ascending_def append_less_cancel replicate_32_less)

lemma example_latest:
  "latestTxRecord example_tx_store (replicate 32 5)
     = Inr (Some (replicate 32 5 @ [0, 0, 0, 120] @ replicate 32 1, replicate 8 1))"
proof -
  have "\<not> HasPrefix (replicate 32 (6 :: byte) @ x) (replicate 32 5)" for x
    by (simp add: HasPrefix_def replicate_eq_replicate)
  moreover have "HasPrefix (replicate 32 (5 :: byte) @ x) (replicate 32 5)" for x
    by (simp add: HasPrefix_def)
  ultimately show ?thesis
    using latestTxRecord_eq [of example_tx_store example_tx_records "replicate 32 5"]
      example_tx_records_ascending
    by (simp add: example_tx_store_def Bucket_def) (simp add: example_tx_records_eq)
qed

theorem latestTxRecord_greatest_witness:
  "Bucket example_tx_store bucketTxRecords = Some example_tx_records
   \<and> ascending example_tx_records
   \<and> length (replicate 32 (5 :: byte)) = 32
   \<and> latestTxRecord example_tx_store (replicate 32 5)
       = Inr (Some (keyTxRecord (replicate 32 5) \<lparr>blk_Hash = replicate 32 1, blk_Height = 120\<rparr>,
                    replicate 8 1))
   \<and> (\<exists>r. latestTxRecord example_tx_store (replicate 32 5) = Inr r
         \<and> (r = None \<longleftrightarrow> (\<forall>p \<in> set example_tx_records. \<not> HasPrefix (fst p) (replicate 32 5)))
         \<and> (\<forall>k v. r = Some (k, v) \<longrightarrow>
                 (k, v) \<in> set example_tx_records \<and> HasPrefix k (replicate 32 5)
                 \<and> (\<forall>p \<in> set example_tx_records. HasPrefix (fst p) (replicate 32 5) \<longrightarrow>
                       fst p \<le> k
                       \<and> (length k = 68 \<and> length (fst p) = 68 \<longrightarrow>
                            Uint32 (bytes_slice (fst p) 32 36) \<le> Uint32 (bytes_slice k 32 36)))))"
proof -
  have b: "Bucket example_tx_store bucketTxRecords = Some example_tx_records"
    by (simp add: example_tx_store_def Bucket_def)
  have l: "length (replicate 32 (5 :: byte)) = 32" by simp
  have k: "keyTxRecord (replicate 32 5) \<lparr>blk_Hash = replicate 32 1, blk_Height = 120\<rparr>
      = replicate 32 5 @ [0, 0, 0, 120] @ replicate 32 1"
    by (simp add: keyTxRecord_eq PutUint32_def)
  show ?thesis
    using latestTxRecord_greatest [OF b example_tx_records_ascending l] b
      example_tx_records_ascending example_latest
    by (simp only: k l)
qed

section \<open>The mined balance and the credits\<close>

lemma Uint64_PutUint64: "Uint64 (PutUint64 w) = w"
proof (rule bit_word_eqI)
  fix n assume n: "n < LENGTH(64)"
  consider "n < 8" | "8 \<le> n" "n < 16" | "16 \<le> n" "n < 24" | "24 \<le> n" "n < 32"
    | "32 \<le> n" "n < 40" | "40 \<le> n" "n < 48" | "48 \<le> n" "n < 56" | "56 \<le> n" "n < 64"
    using n by fastforce
  then show "bit (Uint64 (PutUint64 w)) n = bit w n"
    by cases (auto simp add: Uint64_def PutUint64_def bit_simps)
qed

text \<open>
  The balance identity, in the words of the spec: the amount that a credit record adds
  to the mined balance is its amount field when its Spent flag, as
  fetchRawCreditAmountSpent reads it, is unset, and nothing otherwise; the sum runs over
  the records of the credits bucket. Amounts are 64-bit and the sum wraps around, as
  the balance does.
\<close>

definition credit_unspent_amount :: "bytes \<Rightarrow> 64 word" where
  "credit_unspent_amount v =
     (case fetchRawCreditAmountSpent v of
        Inl e \<Rightarrow> 0
      | Inr (amt, spent) \<Rightarrow> if spent then 0 else amt)"

definition unspent_credit_sum :: "kvs \<Rightarrow> 64 word" where
  "unspent_credit_sum b = sum_list (map (\<lambda>p. credit_unspent_amount (snd p)) b)"

definition balance_identity :: "Namespace \<Rightarrow> bool" where
  "balance_identity ns =
     (case Bucket ns bucketCredits of
        None \<Rightarrow> False
      | Some b \<Rightarrow> fetchMinedBalance ns = Inr (unspent_credit_sum b))"

lemma ascending_Cons: "ascending (p # b) \<longleftrightarrow> (\<forall>q \<in> set b. fst p < fst q) \<and> ascending b"
  by (simp add: ascending_def)

lemma map_of_below: "\<forall>q \<in> set b. k < fst q \<Longrightarrow> map_of (b :: kvs) k = None"
  by (induction b) auto

lemma set_kv_put: "set (kv_put k v b) \<subseteq> insert (k, v) (set b)"
  by (induction b) (auto split: if_splits)

lemma ascending_kv_put: "ascending b \<Longrightarrow> ascending (kv_put k v b)"
proof (induction b)
  case Nil
  then show ?case by (simp add: ascending_def)
next
  case (Cons p b)
  obtain ck cv where p: "p = (ck, cv)" by (cases p)
  have asc: "ascending b" and gt: "\<forall>q \<in> set b. ck < fst q"
    using Cons.prems by (simp_all add: ascending_Cons p)
  show ?case
  proof (cases "k = ck")
    case True
    then show ?thesis using Cons.prems by (simp add: p ascending_Cons)
  next
    case False
    show ?thesis
    proof (cases "k < ck")
      case True
      then show ?thesis
        using Cons.prems gt by (auto simp add: p ascending_Cons)
    next
      case ge: False
      have "ck < k" using False ge by simp
      moreover have "\<forall>q \<in> set (kv_put k v b). fst q = k \<or> q \<in> set b"
        using set_kv_put [of k v b] by auto
      ultimately have "\<forall>q \<in> set (kv_put k v b). ck < fst q"
        using gt by auto
      then show ?thesis
        using False ge Cons.IH [OF asc] by (simp add: p ascending_Cons)
    qed
  qed
qed

lemma ascending_kv_delete: "ascending b \<Longrightarrow> ascending (kv_delete k b)"
  unfolding kv_delete_def by (rule ascending_filter)

lemma sum_kv_put:
  "ascending b \<Longrightarrow>
     unspent_credit_sum (kv_put k v b) =
       unspent_credit_sum b
         - (case map_of b k of None \<Rightarrow> 0 | Some old \<Rightarrow> credit_unspent_amount old)
         + credit_unspent_amount v"
proof (induction b)
  case Nil
  then show ?case by (simp add: unspent_credit_sum_def)
next
  case (Cons p b)
  obtain ck cv where p: "p = (ck, cv)" by (cases p)
  have asc: "ascending b" and gt: "\<forall>q \<in> set b. ck < fst q"
    using Cons.prems by (simp_all add: ascending_Cons p)
  show ?case
  proof (cases "k = ck")
    case True
    then show ?thesis by (simp add: p unspent_credit_sum_def)
  next
    case False
    show ?thesis
    proof (cases "k < ck")
      case True
      then have "\<forall>q \<in> set b. k < fst q" using gt by auto
      then have "map_of b k = None" by (rule map_of_below)
      then show ?thesis using True False by (simp add: p unspent_credit_sum_def)
    next
      case ge: False
      show ?thesis
        using False ge Cons.IH [OF asc] by (simp add: p unspent_credit_sum_def)
    qed
  qed
qed

lemma sum_kv_delete:
  "ascending b \<Longrightarrow>
     unspent_credit_sum (kv_delete k b) =
       unspent_credit_sum b
         - (case map_of b k of None \<Rightarrow> 0 | Some old \<Rightarrow> credit_unspent_amount old)"
proof (induction b)
  case Nil
  then show ?case by (simp add: unspent_credit_sum_def kv_delete_def)
next
  case (Cons p b)
  obtain ck cv where p: "p = (ck, cv)" by (cases p)
  have asc: "ascending b" and gt: "\<forall>q \<in> set b. ck < fst q"
    using Cons.prems by (simp_all add: ascending_Cons p)
  show ?case
  proof (cases "k = ck")
    case True
    have "map_of b k = None" using gt True by (intro map_of_below) simp
    then have "unspent_credit_sum (kv_delete k b) = unspent_credit_sum b"
      using Cons.IH [OF asc] by simp
    then show ?thesis using True by (simp add: p unspent_credit_sum_def kv_delete_def)
  next
    case False
    then show ?thesis
      using Cons.IH [OF asc] by (simp add: p unspent_credit_sum_def kv_delete_def)
  qed
qed


text \<open>
  Modelled from the spec: the write transactions that change credits. They are
  methods of the store in files that are not part of the sources at hand; db.go has
  only the reads and writes they are built from. The spec (section 3, ownership and
  lifecycle) has \<^emph>\<open>bal\<close> updated with any credit mutation: "insert new unspent: add
  amount; mark Spent by mined debit: subtract; unspend: add; delete credit: subtract if
  it was unspent", and (section 4.4) the caller of spendCredit subtracts the amount
  that spendCredit returns, the caller of unspendCredit adds it. Each body below reads
  the balance, makes the one credit mutation with the functions of db.go, and writes
  the balance back. The unspent index, which the identity does not mention, is left
  out.
\<close>

definition insertCredit_body ::
  "credit \<Rightarrow> byte \<Rightarrow> 32 word \<Rightarrow> 32 word \<Rightarrow> 32 word \<Rightarrow> Namespace \<Rightarrow> failure + Namespace" where
  "insertCredit_body cred scrType scrLoc scrLen account ns =
     and_then (fetchMinedBalance ns) (\<lambda>bal.
     and_then (putUnspentCredit ns cred scrType scrLoc scrLen account) (\<lambda>ns.
     putMinedBalance ns (bal + cr_amount cred)))"

text \<open>Modelled from the spec: "mark Spent by mined debit: subtract".\<close>

definition spendCredit_body :: "bytes \<Rightarrow> indexedIncidence \<Rightarrow> Namespace \<Rightarrow> failure + Namespace" where
  "spendCredit_body k spender ns =
     and_then (fetchMinedBalance ns) (\<lambda>bal.
     and_then (spendCredit ns k spender) (\<lambda>(amt, ns).
     putMinedBalance ns (bal - amt)))"

text \<open>Modelled from the spec: "unspend: add".\<close>

definition unspendCredit_body :: "bytes \<Rightarrow> Namespace \<Rightarrow> failure + Namespace" where
  "unspendCredit_body k ns =
     and_then (fetchMinedBalance ns) (\<lambda>bal.
     and_then (unspendRawCredit ns k) (\<lambda>(amt, ns).
     putMinedBalance ns (bal + amt)))"

text \<open>Modelled from the spec: "delete credit: subtract if it was unspent".\<close>

definition deleteCredit_body :: "bytes \<Rightarrow> Namespace \<Rightarrow> failure + Namespace" where
  "deleteCredit_body k ns =
     and_then (fetchMinedBalance ns) (\<lambda>bal.
     and_then (existsRawCredit ns k) (\<lambda>v.
       case v of
         None \<Rightarrow> Inr ns
       | Some v \<Rightarrow>
           and_then (fetchRawCreditAmountSpent v) (\<lambda>(amt, spent).
           and_then (deleteRawCredit ns k) (\<lambda>ns.
           if spent then Inr ns else putMinedBalance ns (bal - amt)))))"

text \<open>The Spent flag of the record under a credit key, \<open>None\<close> when there is no
  readable record.\<close>

definition credit_spent :: "Namespace \<Rightarrow> bytes \<Rightarrow> bool option" where
  "credit_spent ns k =
     (case existsRawCredit ns k of
        Inr (Some v) \<Rightarrow>
          (case fetchRawCreditAmountSpent v of Inr (amt, spent) \<Rightarrow> Some spent | Inl e \<Rightarrow> None)
      | _ \<Rightarrow> None)"

text \<open>
  Modelled from the spec: the states of a store after each successful commit. A store
  starts with createStore; every later commit is one of the four transactions, run by
  scopedUpdate, which returned no error. The spec's words fix when each applies: a
  credit is inserted \<^emph>\<open>new\<close> (no record under its key); a credit is marked Spent
  when it is not Spent already (its outpoint is in the unspent index, whose entry the
  caller deletes); a credit is unspent when it is not unspent already (its entry is
  re-inserted into the unspent index). A key with no record may be spent or unspent,
  as spendCredit and unspendRawCredit allow.
\<close>

inductive reachable :: "Namespace \<Rightarrow> bool" where
  created: "createStore now ns0 = Inr ns \<Longrightarrow> reachable ns"
| inserted:
    "reachable ns \<Longrightarrow>
     existsRawCredit ns (keyCredit (op_Hash (cr_outPoint cred)) (op_Index (cr_outPoint cred))
        (cr_block cred)) = Inr None \<Longrightarrow>
     scopedUpdate ns (insertCredit_body cred scrType scrLoc scrLen account) = Inr ns' \<Longrightarrow>
     reachable ns'"
| spent:
    "reachable ns \<Longrightarrow> credit_spent ns k \<noteq> Some True \<Longrightarrow>
     scopedUpdate ns (spendCredit_body k spender) = Inr ns' \<Longrightarrow> reachable ns'"
| unspent:
    "reachable ns \<Longrightarrow> credit_spent ns k \<noteq> Some False \<Longrightarrow>
     scopedUpdate ns (unspendCredit_body k) = Inr ns' \<Longrightarrow> reachable ns'"
| deleted:
    "reachable ns \<Longrightarrow> scopedUpdate ns (deleteCredit_body k) = Inr ns' \<Longrightarrow> reachable ns'"

text \<open>The invariant that carries the identity through a commit: no bucket is named
  bal, the credits bucket exists with ascending keys and values of 94 bytes, and the
  balance is the sum.\<close>

definition store_inv :: "Namespace \<Rightarrow> bool" where
  "store_inv ns =
     (map_of (ns_buckets ns) rootMinedBalance = None
      \<and> (\<exists>b. Bucket ns bucketCredits = Some b \<and> ascending b
             \<and> (\<forall>p \<in> set b. length (snd p) = 94)
             \<and> fetchMinedBalance ns = Inr (unspent_credit_sum b)))"

lemma putMinedBalance_ok:
  "ns_writable ns \<Longrightarrow> map_of (ns_buckets ns) rootMinedBalance = None \<Longrightarrow>
     putMinedBalance ns x = Inr (ns\<lparr>ns_root := kv_put rootMinedBalance (PutUint64 x) (ns_root ns)\<rparr>)"
  by (simp add: putMinedBalance_def Put_def wrap_error_def Let_def go_copy_def make_bytes_def)

lemma fetchMinedBalance_put:
  "ns_root ns = kv_put rootMinedBalance (PutUint64 x) r \<Longrightarrow> fetchMinedBalance ns = Inr x"
  by (simp add: fetchMinedBalance_def Get_def map_of_kv_put len_of_def bytes_of_def Let_def
      Uint64_PutUint64)

lemma fetchMinedBalance_root:
  "ns_root ns' = ns_root ns \<Longrightarrow> fetchMinedBalance ns' = fetchMinedBalance ns"
  by (simp add: fetchMinedBalance_def Get_def)

lemma bit0_or: "((x :: byte) OR 1) AND 1 \<noteq> 0"
proof
  assume "(x OR 1) AND 1 = 0"
  then have "\<not> bit ((x OR 1) AND 1) 0" by simp
  then show False by (simp add: bit_simps)
qed

lemma credit_unspent_amount_eq:
  "9 \<le> length v \<Longrightarrow>
     credit_unspent_amount v = (if v ! 8 AND 1 \<noteq> 0 then 0 else Uint64 v)"
  by (simp add: credit_unspent_amount_def fetchRawCreditAmountSpent_def)

lemma condense_bit0: "condenseOpCode x AND 1 = 0"
  unfolding condenseOpCode_def by (rule bit_word_eqI) (auto simp add: bit_simps)

lemma or_bit0:
  "(x :: byte) AND 1 = 0 \<Longrightarrow> (x OR 2) AND 1 = 0"
  "(x :: byte) AND 1 = 0 \<Longrightarrow> (x OR 32) AND 1 = 0"
  by (simp_all add: bit.conj_disj_distrib2)

lemma valueUnspentCredit_props:
  shows "length (valueUnspentCredit cred st sl sn acc) = 94"
    and "take 8 (valueUnspentCredit cred st sl sn acc) = PutUint64 (cr_amount cred)"
    and "valueUnspentCredit cred st sl sn acc ! 8 AND 1 = 0"
proof -
  define p where "p = go_copy (make_bytes 94) (PutUint64 (cr_amount cred))"
  define f0 where "f0 = condenseOpCode (cr_opCode cred)"
  define f1 where "f1 = (if cr_change cred then f0 OR push_bit 1 1 else f0)"
  define f2 where "f2 = (if cr_isCoinbase cred then f1 OR push_bit 5 1 else f1)"
  have p: "length p = 94" "take 8 p = PutUint64 (cr_amount cred)"
    by (simp_all add: p_def go_copy_def make_bytes_def)
  have f: "f2 AND 1 = 0"
    by (simp add: f2_def f1_def f0_def or_bit0 condense_bit0)
  have eq: "valueUnspentCredit cred st sl sn acc =
      copy_at (copy_at (copy_at (p[8 := f2, 81 := st OR accountExistsMask]) 82 86 (PutUint32 sl))
        86 90 (PutUint32 sn)) 90 94 (PutUint32 acc)"
    using p(1)
    by (simp add: valueUnspentCredit_def Let_def creditValueSize_def p_def [symmetric] f2_def
        f1_def f0_def)
  show "length (valueUnspentCredit cred st sl sn acc) = 94"
    using p(1) by (simp add: eq)
  show "take 8 (valueUnspentCredit cred st sl sn acc) = PutUint64 (cr_amount cred)"
    using p by (simp add: eq take_copy_at)
  show "valueUnspentCredit cred st sl sn acc ! 8 AND 1 = 0"
    using p(1) f by (simp add: eq nth_copy_at_outside)
qed

lemma valueUnspentCredit_amount:
  "credit_unspent_amount (valueUnspentCredit cred st sl sn acc) = cr_amount cred"
proof -
  let ?v = "valueUnspentCredit cred st sl sn acc"
  have "Uint64 ?v = Uint64 (PutUint64 (cr_amount cred))"
    using valueUnspentCredit_props(1,2) [of cred st sl sn acc]
    by (intro Uint64_cong) simp_all
  then show ?thesis
    using valueUnspentCredit_props(1,3) [of cred st sl sn acc]
    by (simp add: credit_unspent_amount_eq Uint64_PutUint64)
qed


lemma spendCredit_value_pad:
  shows "length (spendCredit_value vopt sp) = 94"
    and "take 8 (spendCredit_value vopt sp) = take 8 (go_copy (make_bytes 94) (bytes_of vopt))"
    and "spendCredit_value vopt sp ! 8 = go_copy (make_bytes 94) (bytes_of vopt) ! 8 OR 1"
proof -
  define p where "p = go_copy (make_bytes 94) (bytes_of vopt)"
  have p: "length p = 94"
    by (simp add: p_def make_bytes_def)
  have eq: "spendCredit_value vopt sp =
      copy_at (copy_at (copy_at (copy_at (p[8 := p ! 8 OR 1]) 9 41 (ii_txHash sp)) 41 45
        (PutUint32 (blk_Height (ii_block sp)))) 45 77 (blk_Hash (ii_block sp))) 77 81
        (PutUint32 (ii_index sp))"
    by (simp add: spendCredit_value_def Let_def creditValueSize_def p_def)
  show "length (spendCredit_value vopt sp) = 94"
    using p by (simp add: eq)
  show "take 8 (spendCredit_value vopt sp) = take 8 (go_copy (make_bytes 94) (bytes_of vopt))"
    using p by (simp add: eq take_copy_at p_def [symmetric])
  show "spendCredit_value vopt sp ! 8 = go_copy (make_bytes 94) (bytes_of vopt) ! 8 OR 1"
    using p by (simp add: eq nth_copy_at_outside p_def [symmetric])
qed

lemma spendCredit_value_spent:
  "credit_unspent_amount (spendCredit_value vopt sp) = 0"
  using spendCredit_value_pad(1,3) [of vopt sp]
  by (simp add: credit_unspent_amount_eq bit0_or)

lemma spendCredit_value_amount:
  "Uint64 (bytes_slice (spendCredit_value vopt sp) 0 8) =
     (case vopt of None \<Rightarrow> 0 | Some v \<Rightarrow> if length v = 94 then Uint64 v else
        Uint64 (go_copy (make_bytes 94) v))"
proof -
  let ?v' = "spendCredit_value vopt sp"
  let ?p = "go_copy (make_bytes 94) (bytes_of vopt)"
  have "Uint64 (bytes_slice ?v' 0 8) = Uint64 ?v'"
    using spendCredit_value_pad(1) [of vopt sp] by (simp add: Uint64_slice)
  also have "\<dots> = Uint64 ?p"
    using spendCredit_value_pad(1,2) [of vopt sp]
    by (intro Uint64_cong) (simp_all add: make_bytes_def)
  also have "\<dots> = (case vopt of None \<Rightarrow> 0 | Some v \<Rightarrow> if length v = 94 then Uint64 v else
        Uint64 (go_copy (make_bytes 94) v))"
    by (auto simp add: bytes_of_def go_copy_def make_bytes_def Uint64_def split: option.splits)
  finally show ?thesis .
qed

lemma store_inv_update:
  assumes "map_of (ns_buckets ns) rootMinedBalance = None"
    and "ns_buckets ns' = AList.update bucketCredits b' (ns_buckets ns)"
    and "fetchMinedBalance ns' = Inr (unspent_credit_sum b')"
    and "ascending b'" and "\<forall>p \<in> set b'. length (snd p) = 94"
  shows "store_inv ns'"
  using assms
  by (auto simp add: store_inv_def Bucket_def update_conv' store_names)

lemma tx_facts:
  "Bucket (ns\<lparr>ns_writable := w\<rparr>) name = Bucket ns name"
  "fetchMinedBalance (ns\<lparr>ns_writable := w\<rparr>) = fetchMinedBalance ns"
  by (simp_all add: Bucket_def fetchMinedBalance_def Get_def)

lemma insert_preserves:
  assumes inv: "store_inv ns"
    and new: "existsRawCredit ns (keyCredit (op_Hash (cr_outPoint cred))
                (op_Index (cr_outPoint cred)) (cr_block cred)) = Inr None"
    and step: "scopedUpdate ns (insertCredit_body cred st sl sn acc) = Inr ns'"
  shows "store_inv ns'"
proof -
  from inv obtain b where nb: "map_of (ns_buckets ns) rootMinedBalance = None"
    and b: "Bucket ns bucketCredits = Some b" "ascending b" "\<forall>p \<in> set b. length (snd p) = 94"
      "fetchMinedBalance ns = Inr (unspent_credit_sum b)"
    by (auto simp add: store_inv_def)
  define k where "k = keyCredit (op_Hash (cr_outPoint cred)) (op_Index (cr_outPoint cred))
     (cr_block cred)"
  define v where "v = valueUnspentCredit cred st sl sn acc"
  define b' where "b' = kv_put k v b"
  define x where "x = unspent_credit_sum b + cr_amount cred"
  have none: "map_of b k = None"
    using new b(1) by (simp add: existsRawCredit_def BucketGet_def k_def)
  have nb': "map_of (AList.update bucketCredits b' (ns_buckets ns)) rootMinedBalance = None"
    using nb by (simp add: update_conv' store_names)
  have body: "insertCredit_body cred st sl sn acc (ns\<lparr>ns_writable := True\<rparr>) =
      Inr (ns\<lparr>ns_writable := True,
               ns_buckets := AList.update bucketCredits b' (ns_buckets ns),
               ns_root := kv_put rootMinedBalance (PutUint64 x) (ns_root ns)\<rparr>)"
    using b(1) b(4) nb'
    by (simp add: insertCredit_body_def and_then_def tx_facts putUnspentCredit_def
        putRawCredit_def BucketPut_def wrap_error_def Let_def putMinedBalance_ok
        k_def v_def b'_def x_def)
  have ns': "ns_buckets ns' = AList.update bucketCredits b' (ns_buckets ns)"
    "ns_root ns' = kv_put rootMinedBalance (PutUint64 x) (ns_root ns)"
    using step by (auto simp add: scopedUpdate_def body)
  have sum: "x = unspent_credit_sum b'"
    using sum_kv_put [OF b(2), of k v] none
    by (simp add: b'_def x_def v_def valueUnspentCredit_amount)
  have len: "\<forall>p \<in> set b'. length (snd p) = 94"
    using set_kv_put [of k v b] b(3) valueUnspentCredit_props(1) [of cred st sl sn acc]
    by (auto simp add: b'_def v_def)
  show ?thesis
    using nb ns'(1) fetchMinedBalance_put [OF ns'(2)] ascending_kv_put [OF b(2), of k v] len
    by (intro store_inv_update [of ns ns' b']) (simp_all add: sum b'_def)
qed


lemma store_inv_same_bucket:
  assumes "store_inv ns" and "ns_buckets ns' = ns_buckets ns"
    and "fetchMinedBalance ns' = fetchMinedBalance ns"
  shows "store_inv ns'"
  using assms by (auto simp add: store_inv_def Bucket_def)

lemma credit_spent_eq:
  assumes "Bucket ns bucketCredits = Some b" and "map_of b k = Some v" and "length v = 94"
  shows "credit_spent ns k = Some (v ! 8 AND 1 \<noteq> 0)"
  using assms
  by (simp add: credit_spent_def existsRawCredit_def BucketGet_def fetchRawCreditAmountSpent_def)

lemma spend_preserves:
  assumes inv: "store_inv ns"
    and guard: "credit_spent ns k \<noteq> Some True"
    and step: "scopedUpdate ns (spendCredit_body k sp) = Inr ns'"
  shows "store_inv ns'"
proof -
  from inv obtain b where nb: "map_of (ns_buckets ns) rootMinedBalance = None"
    and b: "Bucket ns bucketCredits = Some b" "ascending b" "\<forall>p \<in> set b. length (snd p) = 94"
      "fetchMinedBalance ns = Inr (unspent_credit_sum b)"
    by (auto simp add: store_inv_def)
  define v where "v = spendCredit_value (map_of b k) sp"
  define b' where "b' = kv_put k v b"
  define amt where "amt = Uint64 (bytes_slice v 0 8)"
  define x where "x = unspent_credit_sum b - amt"
  have nb': "map_of (AList.update bucketCredits b' (ns_buckets ns)) rootMinedBalance = None"
    using nb by (simp add: update_conv' store_names)
  have sc: "spendCredit (ns\<lparr>ns_writable := True\<rparr>) k sp =
      Inr (amt, ns\<lparr>ns_writable := True,
                    ns_buckets := AList.update bucketCredits b' (ns_buckets ns)\<rparr>)"
    using spendCredit_eq [of "ns\<lparr>ns_writable := True\<rparr>" b k sp] b(1)
    by (simp add: tx_facts v_def b'_def amt_def)
  have body: "spendCredit_body k sp (ns\<lparr>ns_writable := True\<rparr>) =
      Inr (ns\<lparr>ns_writable := True,
               ns_buckets := AList.update bucketCredits b' (ns_buckets ns),
               ns_root := kv_put rootMinedBalance (PutUint64 x) (ns_root ns)\<rparr>)"
    using b(4) nb'
    by (simp add: spendCredit_body_def and_then_def tx_facts sc putMinedBalance_ok x_def)
  have ns': "ns_buckets ns' = AList.update bucketCredits b' (ns_buckets ns)"
    "ns_root ns' = kv_put rootMinedBalance (PutUint64 x) (ns_root ns)"
    using step by (auto simp add: scopedUpdate_def body)
  have old: "(case map_of b k of None \<Rightarrow> 0 | Some old \<Rightarrow> credit_unspent_amount old) = amt"
  proof (cases "map_of b k")
    case None
    then show ?thesis
      using spendCredit_value_amount [of None sp] by (simp add: amt_def v_def)
  next
    case (Some old)
    then have "(k, old) \<in> set b" by (rule map_of_SomeD)
    then have len: "length old = 94" using b(3) by auto
    have "old ! 8 AND 1 = 0"
      using guard credit_spent_eq [OF b(1) Some len] by simp
    then have "credit_unspent_amount old = Uint64 old"
      using len by (simp add: credit_unspent_amount_eq)
    then show ?thesis
      using spendCredit_value_amount [of "Some old" sp] len by (simp add: Some amt_def v_def)
  qed
  have sum: "x = unspent_credit_sum b'"
    using sum_kv_put [OF b(2), of k v] old
    by (simp add: b'_def x_def v_def spendCredit_value_spent)
  have len: "\<forall>p \<in> set b'. length (snd p) = 94"
    using set_kv_put [of k v b] b(3) spendCredit_value_pad(1) [of "map_of b k" sp]
    by (auto simp add: b'_def v_def)
  show ?thesis
    using nb ns'(1) fetchMinedBalance_put [OF ns'(2)] ascending_kv_put [OF b(2), of k v] len
    by (intro store_inv_update [of ns ns' b']) (simp_all add: sum b'_def)
qed

lemma unspend_preserves:
  assumes inv: "store_inv ns"
    and guard: "credit_spent ns k \<noteq> Some False"
    and step: "scopedUpdate ns (unspendCredit_body k) = Inr ns'"
  shows "store_inv ns'"
proof -
  from inv obtain b where nb: "map_of (ns_buckets ns) rootMinedBalance = None"
    and b: "Bucket ns bucketCredits = Some b" "ascending b" "\<forall>p \<in> set b. length (snd p) = 94"
      "fetchMinedBalance ns = Inr (unspent_credit_sum b)"
    by (auto simp add: store_inv_def)
  show ?thesis
  proof (cases "map_of b k")
    case None
    define x where "x = unspent_credit_sum b + 0"
    have body: "unspendCredit_body k (ns\<lparr>ns_writable := True\<rparr>) =
        Inr (ns\<lparr>ns_writable := True,
                 ns_root := kv_put rootMinedBalance (PutUint64 x) (ns_root ns)\<rparr>)"
      using b(1) b(4) nb None
      by (simp add: unspendCredit_body_def and_then_def tx_facts unspendRawCredit_def
          BucketGet_def putMinedBalance_ok x_def)
    have ns': "ns_buckets ns' = ns_buckets ns"
      "ns_root ns' = kv_put rootMinedBalance (PutUint64 x) (ns_root ns)"
      using step by (auto simp add: scopedUpdate_def body)
    show ?thesis
      using inv ns'(1) fetchMinedBalance_put [OF ns'(2)] b(4)
      by (intro store_inv_same_bucket [of ns ns']) (simp_all add: x_def)
  next
    case (Some v)
    then have "(k, v) \<in> set b" by (rule map_of_SomeD)
    then have lv: "length v = 94" using b(3) by auto
    have spent: "v ! 8 AND 1 \<noteq> 0"
      using guard credit_spent_eq [OF b(1) Some lv] by simp
    define newv where "newv = v[8 := v ! 8 AND NOT 1]"
    define b' where "b' = kv_put k newv b"
    define x where "x = unspent_credit_sum b + Uint64 v"
    have nb': "map_of (AList.update bucketCredits b' (ns_buckets ns)) rootMinedBalance = None"
      using nb by (simp add: update_conv' store_names)
    have pad: "go_copy (make_bytes 94) v = v"
      using lv by (simp add: go_copy_def make_bytes_def)
    have ur: "unspendRawCredit (ns\<lparr>ns_writable := True\<rparr>) k =
        Inr (Uint64 v, ns\<lparr>ns_writable := True,
                          ns_buckets := AList.update bucketCredits b' (ns_buckets ns)\<rparr>)"
      using b(1) Some lv
      by (simp add: unspendRawCredit_def BucketGet_def BucketPut_def wrap_error_def Let_def
          tx_facts creditValueSize_def pad Uint64_slice newv_def b'_def)
    have body: "unspendCredit_body k (ns\<lparr>ns_writable := True\<rparr>) =
        Inr (ns\<lparr>ns_writable := True,
                 ns_buckets := AList.update bucketCredits b' (ns_buckets ns),
                 ns_root := kv_put rootMinedBalance (PutUint64 x) (ns_root ns)\<rparr>)"
      using b(4) nb'
      by (simp add: unspendCredit_body_def and_then_def tx_facts ur putMinedBalance_ok x_def)
    have ns': "ns_buckets ns' = AList.update bucketCredits b' (ns_buckets ns)"
      "ns_root ns' = kv_put rootMinedBalance (PutUint64 x) (ns_root ns)"
      using step by (auto simp add: scopedUpdate_def body)
    have old: "credit_unspent_amount v = 0"
      using lv spent by (simp add: credit_unspent_amount_eq)
    have "newv ! 8 AND 1 = 0"
    proof -
      have "newv ! 8 = v ! 8 AND NOT 1" using lv by (simp add: newv_def)
      moreover have "(y AND NOT 1) AND 1 = 0" for y :: byte
        by (simp add: and.assoc)
      ultimately show ?thesis by simp
    qed
    moreover have "Uint64 newv = Uint64 v"
      using lv by (intro Uint64_cong) (simp_all add: newv_def)
    ultimately have new: "credit_unspent_amount newv = Uint64 v"
      using lv by (simp add: credit_unspent_amount_eq newv_def)
    have sum: "x = unspent_credit_sum b'"
      using sum_kv_put [OF b(2), of k newv] Some old new
      by (simp add: b'_def x_def)
    have len: "\<forall>p \<in> set b'. length (snd p) = 94"
      using set_kv_put [of k newv b] b(3) lv by (auto simp add: b'_def newv_def)
    show ?thesis
      using nb ns'(1) fetchMinedBalance_put [OF ns'(2)] ascending_kv_put [OF b(2), of k newv] len
      by (intro store_inv_update [of ns ns' b']) (simp_all add: sum b'_def)
  qed
qed

lemma delete_preserves:
  assumes inv: "store_inv ns"
    and step: "scopedUpdate ns (deleteCredit_body k) = Inr ns'"
  shows "store_inv ns'"
proof -
  from inv obtain b where nb: "map_of (ns_buckets ns) rootMinedBalance = None"
    and b: "Bucket ns bucketCredits = Some b" "ascending b" "\<forall>p \<in> set b. length (snd p) = 94"
      "fetchMinedBalance ns = Inr (unspent_credit_sum b)"
    by (auto simp add: store_inv_def)
  show ?thesis
  proof (cases "map_of b k")
    case None
    have body: "deleteCredit_body k (ns\<lparr>ns_writable := True\<rparr>) = Inr (ns\<lparr>ns_writable := True\<rparr>)"
      using b(1) b(4) None
      by (simp add: deleteCredit_body_def and_then_def tx_facts existsRawCredit_def BucketGet_def)
    have "ns_buckets ns' = ns_buckets ns" "ns_root ns' = ns_root ns"
      using step by (auto simp add: scopedUpdate_def body)
    then show ?thesis
      using inv by (intro store_inv_same_bucket [of ns ns'] fetchMinedBalance_root) simp_all
  next
    case (Some v)
    then have "(k, v) \<in> set b" by (rule map_of_SomeD)
    then have lv: "length v = 94" using b(3) by auto
    define b' where "b' = kv_delete k b"
    define x where "x = unspent_credit_sum b - Uint64 v"
    have nb': "map_of (AList.update bucketCredits b' (ns_buckets ns)) rootMinedBalance = None"
      using nb by (simp add: update_conv' store_names)
    have sum: "unspent_credit_sum b' = unspent_credit_sum b - credit_unspent_amount v"
      using sum_kv_delete [OF b(2), of k] Some by (simp add: b'_def)
    have len: "\<forall>p \<in> set b'. length (snd p) = 94"
      using b(3) by (auto simp add: b'_def kv_delete_def)
    have asc: "ascending b'"
      unfolding b'_def using b(2) by (rule ascending_kv_delete)
    show ?thesis
    proof (cases "v ! 8 AND 1 \<noteq> 0")
      case True
      have body: "deleteCredit_body k (ns\<lparr>ns_writable := True\<rparr>) =
          Inr (ns\<lparr>ns_writable := True,
                   ns_buckets := AList.update bucketCredits b' (ns_buckets ns)\<rparr>)"
        using b(1) b(4) Some lv True
        by (simp add: deleteCredit_body_def and_then_def tx_facts existsRawCredit_def
            BucketGet_def fetchRawCreditAmountSpent_def deleteRawCredit_def BucketDelete_def
            wrap_error_def b'_def)
      have ns': "ns_buckets ns' = AList.update bucketCredits b' (ns_buckets ns)"
        "ns_root ns' = ns_root ns"
        using step by (auto simp add: scopedUpdate_def body)
      have "credit_unspent_amount v = 0"
        using lv True by (simp add: credit_unspent_amount_eq)
      then have "fetchMinedBalance ns' = Inr (unspent_credit_sum b')"
        using fetchMinedBalance_root [OF ns'(2)] b(4) sum by simp
      then show ?thesis
        using nb ns'(1) asc len by (intro store_inv_update [of ns ns' b']) simp_all
    next
      case False
      have body: "deleteCredit_body k (ns\<lparr>ns_writable := True\<rparr>) =
          Inr (ns\<lparr>ns_writable := True,
                   ns_buckets := AList.update bucketCredits b' (ns_buckets ns),
                   ns_root := kv_put rootMinedBalance (PutUint64 x) (ns_root ns)\<rparr>)"
        using b(1) b(4) Some lv False nb'
        by (simp add: deleteCredit_body_def and_then_def tx_facts existsRawCredit_def
            BucketGet_def fetchRawCreditAmountSpent_def deleteRawCredit_def BucketDelete_def
            wrap_error_def putMinedBalance_ok b'_def x_def)
      have ns': "ns_buckets ns' = AList.update bucketCredits b' (ns_buckets ns)"
        "ns_root ns' = kv_put rootMinedBalance (PutUint64 x) (ns_root ns)"
        using step by (auto simp add: scopedUpdate_def body)
      have "credit_unspent_amount v = Uint64 v"
        using lv False by (simp add: credit_unspent_amount_eq)
      then have "x = unspent_credit_sum b'"
        using sum by (simp add: x_def)
      then show ?thesis
        using nb ns'(1) fetchMinedBalance_put [OF ns'(2)] asc len
        by (intro store_inv_update [of ns ns' b']) simp_all
    qed
  qed
qed

lemma createStore_only_empty:
  assumes "createStore now ns0 = Inr ns"
  shows "ns_root ns0 = [] \<and> ns_buckets ns0 = []"
proof (rule ccontr)
  assume "\<not> (ns_root ns0 = [] \<and> ns_buckets ns0 = [])"
  then have "createStore_body now (ns0\<lparr>ns_writable := True\<rparr>) = Inl (StoreError ErrAlreadyExists)"
    by (auto simp add: createStore_body_def storeError_def)
  then have "createStore now ns0 = Inl (StoreError ErrAlreadyExists)"
    by (simp add: createStore_def scopedUpdate_def)
  then show False using assms by simp
qed

lemma created_inv:
  assumes "createStore now ns0 = Inr ns"
  shows "store_inv ns"
proof -
  have e: "ns_root ns0 = []" "ns_buckets ns0 = []"
    using createStore_only_empty [OF assms] by simp_all
  have "fetchMinedBalance ns = Inr 0"
    using createStore_empty [OF e, of now] assms
    by (auto simp add: fetchMinedBalance_def Get_def store_names len_of_def bytes_of_def
        make_bytes_8 Uint64_def)
  then show ?thesis
    using createStore_empty [OF e, of now] assms
    by (auto simp add: store_inv_def Bucket_def store_names ascending_def unspent_credit_sum_def)
qed

lemma reachable_inv: "reachable ns \<Longrightarrow> store_inv ns"
proof (induction rule: reachable.induct)
  case (created now ns0 ns)
  then show ?case by (rule created_inv)
next
  case (inserted ns cred scrType scrLoc scrLen account ns')
  show ?case
    by (rule insert_preserves [OF inserted.IH inserted.hyps(2) inserted.hyps(3)])
next
  case (spent ns k spender ns')
  show ?case
    by (rule spend_preserves [OF spent.IH spent.hyps(2) spent.hyps(3)])
next
  case (unspent ns k ns')
  show ?case
    by (rule unspend_preserves [OF unspent.IH unspent.hyps(2) unspent.hyps(3)])
next
  case (deleted ns k ns')
  show ?case
    by (rule delete_preserves [OF deleted.IH deleted.hyps(2)])
qed

text \<open>
  C1. After every successful commit of a store that was created by createStore and
  changed only by the credit transactions above, the 8-byte bal scalar, as
  fetchMinedBalance reads it, equals the sum of the amount fields of the records of
  the credits bucket whose Spent flag is unset (as 64-bit values).
\<close>

theorem balance_identity_reachable:
  assumes "reachable ns"
  shows "balance_identity ns"
  using reachable_inv [OF assms]
  by (auto simp add: store_inv_def balance_identity_def)

text \<open>A store that was created, credited with an output of 500000000 at height 100,
  and debited by an input at height 101 that spends it.\<close>

definition example_credit :: credit where
  "example_credit =
     \<lparr>cr_outPoint = \<lparr>op_Hash = replicate 32 7, op_Index = 0, op_Tree = 0\<rparr>,
      cr_block = \<lparr>blk_Hash = replicate 32 1, blk_Height = 100\<rparr>,
      cr_amount = 500000000, cr_change = False, cr_opCode = 0xb9, cr_isCoinbase = True\<rparr>"

definition example_credit_key :: bytes where
  "example_credit_key = keyCredit (replicate 32 7) 0 \<lparr>blk_Hash = replicate 32 1, blk_Height = 100\<rparr>"

definition example_spender :: indexedIncidence where
  "example_spender =
     \<lparr>ii_txHash = replicate 32 8, ii_block = \<lparr>blk_Hash = replicate 32 2, blk_Height = 101\<rparr>,
      ii_index = 0\<rparr>"

definition store_created :: Namespace where
  "store_created = projr (createStore 0 empty_namespace)"

definition store_credited :: Namespace where
  "store_credited = projr (scopedUpdate store_created (insertCredit_body example_credit 2 0 0 0))"

definition store_debited :: Namespace where
  "store_debited =
     projr (scopedUpdate store_credited (spendCredit_body example_credit_key example_spender))"

lemma example_steps:
  "\<not> isl (createStore 0 empty_namespace)"
  "existsRawCredit store_created example_credit_key = Inr None"
  "\<not> isl (scopedUpdate store_created (insertCredit_body example_credit 2 0 0 0))"
  "fetchMinedBalance store_credited = Inr 500000000"
  "credit_spent store_credited example_credit_key = Some False"
  "\<not> isl (scopedUpdate store_credited (spendCredit_body example_credit_key example_spender))"
  "fetchMinedBalance store_debited = Inr 0"
  "credit_spent store_debited example_credit_key = Some True"
  by code_simp+


theorem balance_identity_reachable_witness:
  "reachable store_debited \<and> balance_identity store_debited
   \<and> fetchMinedBalance store_credited = Inr 500000000
   \<and> fetchMinedBalance store_debited = Inr 0
   \<and> credit_spent store_debited example_credit_key = Some True"
proof -
  have k: "keyCredit (op_Hash (cr_outPoint example_credit)) (op_Index (cr_outPoint example_credit))
      (cr_block example_credit) = example_credit_key"
    by (simp add: example_credit_def example_credit_key_def)
  have "createStore 0 empty_namespace = Inr store_created"
    using example_steps(1) by (simp add: store_created_def)
  then have r0: "reachable store_created"
    by (rule reachable.created)
  have "scopedUpdate store_created (insertCredit_body example_credit 2 0 0 0) = Inr store_credited"
    using example_steps(3) by (simp add: store_credited_def)
  then have r1: "reachable store_credited"
    using reachable.inserted [OF r0, of example_credit 2 0 0 0 store_credited] example_steps(2)
    by (simp add: k)
  have "scopedUpdate store_credited (spendCredit_body example_credit_key example_spender)
      = Inr store_debited"
    using example_steps(6) by (simp add: store_debited_def)
  then have r2: "reachable store_debited"
    using reachable.spent [OF r1, of example_credit_key example_spender store_debited]
      example_steps(5)
    by simp
  show ?thesis
    using balance_identity_reachable [OF r2] r2 example_steps(4,7,8) by simp
qed

section \<open>The error kind of the length checks\<close>

text \<open>The length checks of the other decoders modelled here answer a short input
  with a Data error.\<close>

lemma length_checks_are_ErrData:
  "len_of (Get ns rootMinedBalance) \<noteq> 8 \<Longrightarrow> fetchMinedBalance ns = Inl (StoreError ErrData)"
  "length k < 36 \<Longrightarrow> readCanonicalOutPoint k op = Inl (StoreError ErrData)"
  "length v < 46 \<Longrightarrow> appendRawBlockRecord v h = Inl (StoreError ErrData)"
  "length v < 46 \<Longrightarrow> removeRawBlockRecord v h = Inl (StoreError ErrData)"
  "length k < 4 \<or> length v < 46 \<Longrightarrow> readRawBlockRecord k v blk = Inl (StoreError ErrData)"
  "length v < 8 \<Longrightarrow> readRawTxRecord txouts v = Inl (StoreError ErrData)"
  "length v < 9 \<Longrightarrow> fetchRawCreditAmount v = Inl (StoreError ErrData)"
  "length v < 9 \<Longrightarrow> fetchRawCreditAmountSpent v = Inl (StoreError ErrData)"
  by (auto simp add: fetchMinedBalance_def readCanonicalOutPoint_def appendRawBlockRecord_def
      removeRawBlockRecord_def readRawBlockRecord_def readRawTxRecord_def
      fetchRawCreditAmount_def fetchRawCreditAmountSpent_def storeError_def Let_def)

end
